theory Spec2Isabelle
  imports Complex_Main "HOL-Library.Word"
begin

unbundle bit_operations_syntax

section \<open>Machine types\<close>

type_synonym u8 = "8 word"
type_synonym u16 = "16 word"
type_synonym u32 = "32 word"
type_synonym u64 = "64 word"

text \<open>
  The ways the process ends early. \<open>fail_printf\<close> prints a diagnostic and exits
  (\<open>Fatal\<close>); an integer division by zero traps; a null pointer dereference faults;
  \<open>range_list_pick\<close> rejects an index beyond the count. A function that may end the
  process returns \<open>abort + 'a\<close>, with \<open>Inl\<close> for the early end.
\<close>

datatype abort = Fatal string | DivideByZero | NullDeref | PickOutOfRange

section \<open>The token count (\<open>double\<close>)\<close>

text \<open>
  The token count of a bucket is a C \<open>double\<close>: an IEEE 754 binary64 number, with
  arithmetic rounded to nearest, ties to even. A finite \<open>double\<close> is kept as the real
  number it denotes, and \<open>tokens--\<close> gives the \<open>double\<close> nearest to the count less one.
  \<open>round_even\<close> rounds a real to the nearest integer, ties to even; \<open>double_round\<close> rounds
  to 53 significant bits. Subtracting one from a finite \<open>double\<close> neither overflows nor
  gives a subnormal result other than zero, so the exponent range plays no part.
\<close>

definition round_even :: "real \<Rightarrow> int" where
  "round_even z =
     (let f = \<lfloor>z\<rfloor> in
      if z - of_int f < 1 / 2 then f
      else if z - of_int f > 1 / 2 then f + 1
      else if even f then f else f + 1)"

definition double_round :: "real \<Rightarrow> real" where
  "double_round y =
     (if y = 0 then 0
      else
        let e = \<lfloor>log 2 \<bar>y\<bar>\<rfloor> - 52
        in of_int (round_even (y / 2 powr of_int e)) * 2 powr of_int e)"

definition double_dec :: "real \<Rightarrow> real" where
  "double_dec t = double_round (t - 1)"

section \<open>Packet chains (\<open>struct pkt\<close>)\<close>

text \<open>
  The header \<open>pkt.h\<close> is not among the sources. The model keeps what \<open>pktizr.c\<close> and
  \<open>resolv.c\<close> read and write: the type tag together with the union \<open>p\<close> (\<open>pkt_p\<close>, one
  constructor per tag, with the fields of the Ethernet and ARP headers that \<open>pkt_build_eth\<close> and
  \<open>pkt_build_arp\<close> receive), the \<open>probe\<close> flag and the \<open>next\<close> pointer (\<open>pkt_next\<close>, where
  \<open>None\<close> is the null pointer). Addresses are arrays of bytes, as \<open>memcmp\<close> and \<open>memcpy\<close> see them.
\<close>

record eth_hdr =
  eth_src :: "u8 list"
  eth_dst :: "u8 list"
  eth_type :: u16

record arp_hdr =
  hwtype :: u16
  arp_ptype :: u16
  arp_op :: u16
  hwsrc :: "u8 list"
  psrc :: "u8 list"
  hwdst :: "u8 list"
  pdst :: "u8 list"

datatype pkt_hdr =
    TYPE_ETH eth_hdr
  | TYPE_ARP arp_hdr
  | TYPE_IP4
  | TYPE_ICMP
  | TYPE_TCP
  | TYPE_UDP

datatype pkt = Pkt (pkt_p: pkt_hdr) (probe: bool) (pkt_next: "pkt option")

text \<open>The nodes of a chain, following \<open>pkt_next\<close> from the head.\<close>

fun nodes :: "pkt \<Rightarrow> pkt list" where
  "nodes (Pkt h b None) = [Pkt h b None]"
| "nodes (Pkt h b (Some q)) = Pkt h b (Some q) # nodes q"

section \<open>The transmitter (\<open>send_cb\<close>)\<close>

text \<open>
  The state the transmitter changes: its two counters (\<open>status_line\<close> reads them into
  \<open>uint64_t\<close>; \<open>++\<close> wraps at \<open>2 ^ 64\<close>), the token count of its bucket, the frames
  handed to the device's \<open>inject\<close> and the packets handed to \<open>pkt_free\<close>, both in call
  order.
\<close>

record send_state =
  pkt_sent :: u64
  pkt_probe :: u64
  send_tokens :: real
  injected :: "u8 list list"
  send_freed :: "pkt list"

text \<open>
  \<open>pkt_pack\<close> (in \<open>pkt.c\<close>, not among the sources) is a parameter: from the length of the
  transmit slot and the packet it gives the returned length and the bytes left in the slot.
  \<open>inject\<close> commits the first \<open>pkt_len\<close> bytes of the slot.
\<close>

type_synonym pack_fn = "nat \<Rightarrow> pkt \<Rightarrow> int \<times> u8 list"

text \<open>The body of the inner loop of \<open>send_cb\<close> for a node that \<open>queue_dequeue\<close> returned.\<close>

definition send_pkt :: "pack_fn \<Rightarrow> nat \<Rightarrow> pkt \<Rightarrow> send_state \<Rightarrow> send_state" where
  "send_pkt pkt_pack len pkt s =
     (let (pkt_len, buf) = pkt_pack len pkt in
      if pkt_len < 0 then s\<lparr>send_freed := send_freed s @ [pkt]\<rparr>
      else
        let s1 = s\<lparr>injected := injected s @ [take (nat pkt_len) buf]\<rparr>;
            s2 = s1\<lparr>pkt_sent := pkt_sent s1 + 1\<rparr>;
            s3 = s2\<lparr>send_tokens := double_dec (send_tokens s2)\<rparr>;
            s4 = (if probe pkt then s3\<lparr>pkt_probe := pkt_probe s3 + 1\<rparr> else s3)
        in s4\<lparr>send_freed := send_freed s4 @ [pkt]\<rparr>)"

text \<open>
  The inner loop of \<open>send_cb\<close>. Each pass reads \<open>args->done\<close> at the loop test and, when
  the test lets it in, dequeues; both depend on the other threads, so the loop runs
  against the list of what it observes pass by pass: the flag read and the node
  dequeued (\<open>None\<close> when the queue is empty). It gives \<open>None\<close> when the list ends while
  the loop is still running.
\<close>

fun send_burst ::
  "pack_fn \<Rightarrow> nat \<Rightarrow> nat \<Rightarrow> (bool \<times> pkt option) list \<Rightarrow> send_state \<Rightarrow> send_state option" where
  "send_burst pkt_pack len rate [] s = None"
| "send_burst pkt_pack len rate ((done, node) # obs) s =
     (if \<not> done \<and> (rate = 0 \<or> 1 \<le> send_tokens s) then
        (case node of
           None \<Rightarrow> Some s
         | Some pkt \<Rightarrow> send_burst pkt_pack len rate obs (send_pkt pkt_pack len pkt s))
      else Some s)"

text \<open>
  The body of the outer loop: \<open>bucket_consume\<close> (in \<open>bucket.c\<close>, not among the sources),
  given as its effect on the token count, then the inner loop.
\<close>

definition send_pass ::
  "pack_fn \<Rightarrow> nat \<Rightarrow> nat \<Rightarrow> (real \<Rightarrow> real) \<times> (bool \<times> pkt option) list \<Rightarrow> send_state
     \<Rightarrow> send_state option" where
  "send_pass pkt_pack len rate ob s =
     send_burst pkt_pack len rate (snd ob) (s\<lparr>send_tokens := (fst ob) (send_tokens s)\<rparr>)"

text \<open>
  The outer loop \<open>while (!args->done)\<close>, against the list of the flag read at each loop
  test together with what the pass then meets.
\<close>

fun send_loop ::
  "pack_fn \<Rightarrow> nat \<Rightarrow> nat \<Rightarrow> (bool \<times> (real \<Rightarrow> real) \<times> (bool \<times> pkt option) list) list
     \<Rightarrow> send_state \<Rightarrow> send_state option" where
  "send_loop pkt_pack len rate [] s = None"
| "send_loop pkt_pack len rate ((done, ob) # obs) s =
     (if done then Some s
      else
        (case send_pass pkt_pack len rate ob s of
           None \<Rightarrow> None
         | Some s' \<Rightarrow> send_loop pkt_pack len rate obs s'))"

text \<open>A run of passes of the outer loop, one after the other.\<close>

fun send_passes ::
  "pack_fn \<Rightarrow> nat \<Rightarrow> nat \<Rightarrow> ((real \<Rightarrow> real) \<times> (bool \<times> pkt option) list) list
     \<Rightarrow> send_state \<Rightarrow> send_state option" where
  "send_passes pkt_pack len rate [] s = Some s"
| "send_passes pkt_pack len rate (ob # obs) s =
     (case send_pass pkt_pack len rate ob s of
        None \<Rightarrow> None
      | Some s' \<Rightarrow> send_passes pkt_pack len rate obs s')"

section \<open>The receiver (\<open>recv_cb\<close>)\<close>

text \<open>
  The state the receiver changes: its counter, the chains handed to the script's \<open>recv\<close>
  upcall, the chains handed to \<open>pkt_free\<close> and the number of calls of the device's
  \<open>release\<close>.
\<close>

record recv_state =
  pkt_recv :: u64
  recv_upcalls :: "pkt option list"
  recv_freed :: "pkt option list"
  released :: nat

text \<open>
  \<open>pkt_unpack\<close> (in \<open>pkt.c\<close>) and \<open>script_recv\<close> (in \<open>script.c\<close>) are parameters:
  \<open>pkt_unpack\<close> gives the returned layer count and the chain stored through its last
  argument (\<open>None\<close> while that pointer is still \<open>NULL\<close>), \<open>script_recv\<close> the returned status.
\<close>

type_synonym unpack_fn = "u8 list \<Rightarrow> int \<times> pkt option"

text \<open>One pass of the loop of \<open>recv_cb\<close>, given what \<open>capture\<close> returned.\<close>

definition recv_frame ::
  "unpack_fn \<Rightarrow> (pkt option \<Rightarrow> int) \<Rightarrow> u8 list option \<Rightarrow> recv_state \<Rightarrow> recv_state" where
  "recv_frame pkt_unpack script_recv captured s =
     (case captured of
        None \<Rightarrow> s
      | Some buf \<Rightarrow>
          let (rc, pkt) = pkt_unpack buf in
          if rc = 0 then s\<lparr>released := released s + 1\<rparr>
          else
            let s1 = s\<lparr>recv_upcalls := recv_upcalls s @ [pkt]\<rparr>;
                s2 = (if script_recv pkt < 0 then s1 else s1\<lparr>pkt_recv := pkt_recv s1 + 1\<rparr>);
                s3 = s2\<lparr>recv_freed := recv_freed s2 @ [pkt]\<rparr>
            in s3\<lparr>released := released s3 + 1\<rparr>)"

text \<open>
  The loop \<open>while (!args->done)\<close> of \<open>recv_cb\<close>, against the list of the flag read at
  each loop test together with what \<open>capture\<close> then returns. It gives \<open>None\<close> when the
  list ends while the loop is still running.
\<close>

fun recv_loop ::
  "unpack_fn \<Rightarrow> (pkt option \<Rightarrow> int) \<Rightarrow> (bool \<times> u8 list option) list \<Rightarrow> recv_state
     \<Rightarrow> recv_state option" where
  "recv_loop pkt_unpack script_recv [] s = None"
| "recv_loop pkt_unpack script_recv ((done, captured) # obs) s =
     (if done then Some s
      else recv_loop pkt_unpack script_recv obs (recv_frame pkt_unpack script_recv captured s))"

section \<open>The pipeline in \<open>main\<close>\<close>

text \<open>
  Lines 219 to 240 of \<open>main\<close>: what the main thread does, in order. The state is the flag
  \<open>args->done\<close> and the trace of the calls made and of the write of the flag.
\<close>

datatype thread_id = recv_thread | send_thread | loop_thread

datatype main_event =
    Queue_init
  | Start_thread thread_id
  | Setup_signals
  | Status_line
  | Pthread_join thread_id
  | Set_done
  | Netdev_close
  | Range_list_free_targets
  | Range_list_free_ports
  | Free_script

record main_state =
  args_done :: bool
  main_trace :: "main_event list"

definition main_call :: "main_event \<Rightarrow> main_state \<Rightarrow> main_state" where
  "main_call e m = m\<lparr>main_trace := main_trace m @ [e]\<rparr>"

text \<open>Lines 219 to 227: the queue, the three threads, the signals and the status line.\<close>

definition main_pipeline :: "main_state \<Rightarrow> main_state" where
  "main_pipeline m =
     (let m = main_call Queue_init m;
          m = main_call (Start_thread recv_thread) m;
          m = main_call (Start_thread send_thread) m;
          m = main_call (Start_thread loop_thread) m;
          m = main_call Setup_signals m
      in main_call Status_line m)"

text \<open>Lines 229 to 234: the joins and the write of the flag.\<close>

definition main_shutdown :: "main_state \<Rightarrow> main_state" where
  "main_shutdown m =
     (let m = main_call (Pthread_join loop_thread) m;
          m = main_call Set_done (m\<lparr>args_done := True\<rparr>);
          m = main_call (Pthread_join recv_thread) m
      in main_call (Pthread_join send_thread) m)"

text \<open>Lines 236 to 240.\<close>

definition main_cleanup :: "main_state \<Rightarrow> main_state" where
  "main_cleanup m =
     (let m = main_call Netdev_close m;
          m = main_call Range_list_free_targets m;
          m = main_call Range_list_free_ports m
      in main_call Free_script m)"

definition main_run :: "main_state \<Rightarrow> main_state" where
  "main_run m = main_cleanup (main_shutdown (main_pipeline m))"

section \<open>The generator (\<open>loop_cb\<close>)\<close>

text \<open>
  Modelled from the spec: \<open>ranges.c\<close> is not among the sources. A range list is read as
  the list of its elements in canonical order; \<open>range_list_count\<close> is the number of
  elements and \<open>range_list_pick\<close> the element at an index below the count, any other
  index being rejected.
\<close>

type_synonym range_list = "u32 list"

definition range_list_count :: "range_list \<Rightarrow> nat" where
  "range_list_count l = length l"

definition range_list_pick :: "range_list \<Rightarrow> nat \<Rightarrow> u32 option" where
  "range_list_pick l i = (if i < length l then Some (l ! i) else None)"

text \<open>
  The fields of \<open>struct pktizr_args\<close> that the modelled code reads or writes. \<open>rate\<close> and
  \<open>count\<close> are \<open>uint64_t\<close> values and \<open>size_t\<close> is taken to be 64 bits wide; they are kept
  as naturals. The only arithmetic that can leave the 64-bit range is the product in
  \<open>loop_cb\<close>, where the wrap-around is written out.
\<close>

record pktizr_args =
  targets :: range_list
  ports :: range_list
  rate :: nat
  count :: nat
  local_mac :: "u8 list"
  local_addr :: u32
  gateway_mac :: "u8 list"
  gateway_addr :: u32

definition tot_cnt :: "pktizr_args \<Rightarrow> nat" where
  "tot_cnt A =
     (range_list_count (targets A) * range_list_count (ports A) * count A) mod 2 ^ 64"

text \<open>
  What the generator gets from outside while it runs, by iteration index: the value of
  \<open>args->stop\<close> read by the loop test, the effect of \<open>bucket_consume\<close> (in \<open>bucket.c\<close>)
  on the token count, which depends on the clock, and the status returned by the script's
  \<open>loop\<close> upcall, which depends on the state of the script.
\<close>

record loop_env =
  stop_at :: "nat \<Rightarrow> bool"
  bucket_consume :: "nat \<Rightarrow> real \<Rightarrow> real"
  script_loop :: "nat \<Rightarrow> u32 \<Rightarrow> u16 \<Rightarrow> int"

text \<open>
  The state the generator changes: the token count of its bucket, the index pairs it
  passed to \<open>range_list_pick\<close> and the \<open>(daddr, dport)\<close> pairs it passed to the script,
  both in call order.
\<close>

record loop_state =
  loop_tokens :: real
  picked :: "(nat \<times> nat) list"
  loop_calls :: "(u32 \<times> u16) list"

definition target_index :: "pktizr_args \<Rightarrow> nat \<Rightarrow> nat" where
  "target_index A i = (i mod range_list_count (targets A)) div count A"

definition port_index :: "pktizr_args \<Rightarrow> nat \<Rightarrow> nat" where
  "port_index A i = (i div range_list_count (targets A)) div count A"

text \<open>The body of the \<open>for\<close> loop at index \<open>i\<close>; \<open>dport\<close> is the pick cut to 16 bits.\<close>

definition loop_iter :: "pktizr_args \<Rightarrow> loop_env \<Rightarrow> nat \<Rightarrow> loop_state \<Rightarrow> abort + loop_state" where
  "loop_iter A E i s =
     (let s1 = s\<lparr>loop_tokens := bucket_consume E i (loop_tokens s)\<rparr> in
      if range_list_count (targets A) = 0 \<or> count A = 0 then Inl DivideByZero
      else
        (case range_list_pick (targets A) (target_index A i) of
           None \<Rightarrow> Inl PickOutOfRange
         | Some daddr \<Rightarrow>
            (case range_list_pick (ports A) (port_index A i) of
               None \<Rightarrow> Inl PickOutOfRange
             | Some prt \<Rightarrow>
                 let dport = (ucast prt :: u16);
                     s2 = s1\<lparr>picked := picked s1 @ [(target_index A i, port_index A i)],
                             loop_calls := loop_calls s1 @ [(daddr, dport)]\<rparr>
                 in if script_loop E i daddr dport < 0 then Inr s2
                    else Inr (s2\<lparr>loop_tokens := double_dec (loop_tokens s2)\<rparr>))))"

text \<open>The \<open>for\<close> loop from index \<open>i\<close> on.\<close>

function loop_from :: "pktizr_args \<Rightarrow> loop_env \<Rightarrow> nat \<Rightarrow> loop_state \<Rightarrow> abort + loop_state" where
  "loop_from A E i s =
     (if i < tot_cnt A \<and> \<not> stop_at E i then
        (case loop_iter A E i s of
           Inl e \<Rightarrow> Inl e
         | Inr s' \<Rightarrow> loop_from A E (i + 1) s')
      else Inr s)"
  by pat_completeness auto
termination
  by (relation "measure (\<lambda>(A, E, i, s). tot_cnt A - i)") auto

declare loop_from.simps [simp del]

text \<open>\<open>loop_cb\<close> from the initialised bucket: the loop starts at index 0 with no call made.\<close>

definition loop_cb :: "pktizr_args \<Rightarrow> loop_env \<Rightarrow> real \<Rightarrow> abort + loop_state" where
  "loop_cb A E tokens0 =
     loop_from A E 0 \<lparr>loop_tokens = tokens0, picked = [], loop_calls = []\<rparr>"

section \<open>The ARP resolver (\<open>resolv_addr_to_mac\<close>)\<close>

text \<open>
  \<open>saddr = htonl(saddr)\<close> followed by reading the variable through a byte pointer gives
  the four bytes of the address from the most significant to the least, on a host of
  either byte order.
\<close>

definition htonl_bytes :: "u32 \<Rightarrow> u8 list" where
  "htonl_bytes a = [ucast (drop_bit 24 a), ucast (drop_bit 16 a), ucast (drop_bit 8 a), ucast a]"

text \<open>
  Modelled from the spec: \<open>pkt_new\<close>, \<open>pkt_build_arp\<close> and \<open>pkt_build_eth\<close> are in \<open>pkt.c\<close>,
  which is not among the sources. A new node has no successor and is not a probe; a build
  operation fills the header of its kind with the fields it is given, in the order of
  the calls in \<open>resolv.c\<close>.
\<close>

definition pkt_new :: "pkt_hdr \<Rightarrow> pkt" where
  "pkt_new h = Pkt h False None"

definition pkt_build_arp ::
  "u16 \<Rightarrow> u16 \<Rightarrow> u16 \<Rightarrow> u8 list \<Rightarrow> u8 list \<Rightarrow> u8 list \<Rightarrow> u8 list \<Rightarrow> pkt_hdr" where
  "pkt_build_arp hwt pt opc hws ps hwd pd =
     TYPE_ARP \<lparr>hwtype = hwt, arp_ptype = pt, arp_op = opc,
               hwsrc = hws, psrc = ps, hwdst = hwd, pdst = pd\<rparr>"

definition pkt_build_eth :: "u8 list \<Rightarrow> u8 list \<Rightarrow> u16 \<Rightarrow> pkt_hdr" where
  "pkt_build_eth src dst t = TYPE_ETH \<lparr>eth_src = src, eth_dst = dst, eth_type = t\<rparr>"

text \<open>\<open>DL_APPEND\<close> of a node to a chain: the node becomes the successor of the last one.\<close>

fun DL_APPEND :: "pkt option \<Rightarrow> pkt \<Rightarrow> pkt" where
  "DL_APPEND None add = add"
| "DL_APPEND (Some (Pkt h b nx)) add = Pkt h b (Some (DL_APPEND nx add))"

definition ARPHRD_ETHER :: u16 where "ARPHRD_ETHER = 1"
definition ETHERTYPE_IP :: u16 where "ETHERTYPE_IP = 0x0800"
definition ARPOP_REQUEST :: u16 where "ARPOP_REQUEST = 1"
definition ETH_PKTLEN :: nat where "ETH_PKTLEN = 14"
definition ARP_PKTLEN :: nat where "ARP_PKTLEN = 8 + 2 * 6 + 2 * 4"

text \<open>The request chain of lines 78 to 88: the ARP node first, the Ethernet node appended.\<close>

definition arp_request :: "u8 list \<Rightarrow> u32 \<Rightarrow> u32 \<Rightarrow> pkt" where
  "arp_request shost saddr daddr =
     (let arp = pkt_new (pkt_build_arp ARPHRD_ETHER ETHERTYPE_IP ARPOP_REQUEST
                   shost (htonl_bytes saddr) [0, 0, 0, 0, 0, 0] (htonl_bytes daddr));
          pkt = DL_APPEND None arp;
          eth = pkt_new (pkt_build_eth shost [0xff, 0xff, 0xff, 0xff, 0xff, 0xff] 0)
      in DL_APPEND (Some pkt) eth)"

definition resolv_timeout :: u64 where
  "resolv_timeout = 5000000"

text \<open>
  What one pass of the polling loop does with a captured frame, after the test of the
  clock (lines 110 to 125): go on polling, end the loop with the six bytes for \<open>dhost\<close>,
  or fault when \<open>pkt_unpack\<close> reports two layers and leaves the chain pointer null.
  \<open>memcmp\<close> compares four bytes and \<open>memcpy\<close> copies six.
\<close>

datatype poll_step = Continue | Matched "u8 list" | Faulted abort

definition resolv_frame :: "unpack_fn \<Rightarrow> u8 list \<Rightarrow> u8 list \<Rightarrow> u8 list \<Rightarrow> poll_step" where
  "resolv_frame pkt_unpack saddr daddr frame =
     (let (n, rsp_pkt) = pkt_unpack frame in
      if n < 2 then Continue
      else
        (case rsp_pkt of
           None \<Rightarrow> Faulted NullDeref
         | Some hd_pkt \<Rightarrow>
             (case pkt_next hd_pkt of
                Some (Pkt (TYPE_ARP arp) b nx) \<Rightarrow>
                  if take 4 (psrc arp) \<noteq> daddr then Continue
                  else if take 4 (pdst arp) \<noteq> saddr then Continue
                  else Matched (take 6 (hwsrc arp))
              | _ \<Rightarrow> Continue)))"

text \<open>
  The polling loop. Each pass calls \<open>capture\<close> and then \<open>time_now\<close>; the loop runs against
  the list of these pairs, one per pass, and gives \<open>None\<close> when the list ends while it is
  still polling. Its result is the returned status with the contents of \<open>dhost\<close>. The
  subtraction of the start time is on \<open>uint64_t\<close>.
\<close>

fun resolv_poll ::
  "unpack_fn \<Rightarrow> u8 list \<Rightarrow> u8 list \<Rightarrow> u64 \<Rightarrow> (u8 list option \<times> u64) list \<Rightarrow> u8 list
     \<Rightarrow> (abort + int \<times> u8 list) option" where
  "resolv_poll pkt_unpack saddr daddr start [] dhost = None"
| "resolv_poll pkt_unpack saddr daddr start ((rsp, now) # obs) dhost =
     (if now - start > resolv_timeout then Some (Inr (- 1, dhost))
      else
        (case rsp of
           None \<Rightarrow> resolv_poll pkt_unpack saddr daddr start obs dhost
         | Some frame \<Rightarrow>
             (case resolv_frame pkt_unpack saddr daddr frame of
                Continue \<Rightarrow> resolv_poll pkt_unpack saddr daddr start obs dhost
              | Matched mac \<Rightarrow> Some (Inr (0, mac @ drop 6 dhost))
              | Faulted e \<Rightarrow> Some (Inl e))))"

text \<open>
  What the resolver gets from outside: \<open>pkt_pack\<close> and \<open>pkt_unpack\<close>, the clock at the
  start of the polling and the pairs the loop observes.
\<close>

record resolv_env =
  r_pkt_pack :: pack_fn
  r_pkt_unpack :: unpack_fn
  r_start :: u64
  r_observed :: "(u8 list option \<times> u64) list"

text \<open>
  \<open>resolv_addr_to_mac\<close>: the result is the returned status, the contents of \<open>dhost\<close> and
  the frames handed to the device's \<open>inject\<close>.
\<close>

definition resolv_addr_to_mac ::
  "resolv_env \<Rightarrow> u8 list \<Rightarrow> u32 \<Rightarrow> u8 list \<Rightarrow> u32
     \<Rightarrow> (abort + int \<times> u8 list \<times> u8 list list) option" where
  "resolv_addr_to_mac R shost saddr dhost daddr =
     (let pkt = arp_request shost saddr daddr;
          (len, buf) = r_pkt_pack R (ETH_PKTLEN + ARP_PKTLEN) pkt
      in if len < 0 then Some (Inl (Fatal ''Error packing ARP packet''))
         else
           (case resolv_poll (r_pkt_unpack R) (htonl_bytes saddr) (htonl_bytes daddr)
                   (r_start R) (r_observed R) dhost of
              None \<Rightarrow> None
            | Some (Inl e) \<Rightarrow> Some (Inl e)
            | Some (Inr (rc, dhost')) \<Rightarrow> Some (Inr (rc, dhost', [take (nat len) buf]))))"

text \<open>
  Modelled from the spec: what \<open>pkt_unpack\<close> (in \<open>pkt.c\<close>, not among the sources) returns.
  It parses outermost first starting from Ethernet and returns the number of layers, zero
  when not even the Ethernet header is complete; adjacent layers are a legal encapsulation
  pair (Ethernet wraps IPv4 or ARP, IPv4 wraps TCP, UDP or ICMP); the address fields of
  an ARP header are arrays of six and of four bytes.
\<close>

fun legal_pair :: "pkt_hdr \<Rightarrow> pkt_hdr \<Rightarrow> bool" where
  "legal_pair (TYPE_ETH e) TYPE_IP4 = True"
| "legal_pair (TYPE_ETH e) (TYPE_ARP a) = True"
| "legal_pair TYPE_IP4 TYPE_TCP = True"
| "legal_pair TYPE_IP4 TYPE_UDP = True"
| "legal_pair TYPE_IP4 TYPE_ICMP = True"
| "legal_pair h h' = False"

fun arp_sized :: "pkt_hdr \<Rightarrow> bool" where
  "arp_sized (TYPE_ARP a) =
     (length (hwsrc a) = 6 \<and> length (psrc a) = 4 \<and> length (hwdst a) = 6 \<and> length (pdst a) = 4)"
| "arp_sized h = True"

fun well_formed :: "pkt \<Rightarrow> bool" where
  "well_formed (Pkt h b None) = arp_sized h"
| "well_formed (Pkt h b (Some q)) = (arp_sized h \<and> legal_pair h (pkt_p q) \<and> well_formed q)"

fun is_eth :: "pkt_hdr \<Rightarrow> bool" where
  "is_eth (TYPE_ETH e) = True"
| "is_eth h = False"

fun unpack_contract :: "int \<times> pkt option \<Rightarrow> bool" where
  "unpack_contract (n, None) = (n = 0)"
| "unpack_contract (n, Some c) = (n = int (length (nodes c)) \<and> is_eth (pkt_p c) \<and> well_formed c)"

text \<open>The ARP headers among the nodes of an unpacked chain, in chain order.\<close>

fun arp_of :: "pkt \<Rightarrow> arp_hdr list" where
  "arp_of (Pkt (TYPE_ARP a) b nx) = [a]"
| "arp_of (Pkt h b nx) = []"

definition arp_nodes :: "pkt option \<Rightarrow> arp_hdr list" where
  "arp_nodes c = (case c of None \<Rightarrow> [] | Some hd_pkt \<Rightarrow> concat (map arp_of (nodes hd_pkt)))"

text \<open>
  A matching reply: an ARP node of the chain whose \<open>psrc\<close> is the gateway address and
  whose \<open>pdst\<close> is the local address, both in network byte order.
\<close>

definition matching_reply :: "u32 \<Rightarrow> u32 \<Rightarrow> pkt option \<Rightarrow> arp_hdr option" where
  "matching_reply saddr daddr c =
     find (\<lambda>a. psrc a = htonl_bytes daddr \<and> pdst a = htonl_bytes saddr) (arp_nodes c)"

text \<open>
  A pass of the polling loop within the time limit that captures no matching reply: no
  frame at all, or a frame whose chain has no such ARP node.
\<close>

definition no_reply_in_time ::
  "unpack_fn \<Rightarrow> u64 \<Rightarrow> u32 \<Rightarrow> u32 \<Rightarrow> u8 list option \<times> u64 \<Rightarrow> bool" where
  "no_reply_in_time pkt_unpack start saddr daddr ob =
     (case ob of (rsp, now) \<Rightarrow>
        \<not> now - start > resolv_timeout \<and>
        (case rsp of
           None \<Rightarrow> True
         | Some frame \<Rightarrow>
             unpack_contract (pkt_unpack frame) \<and>
             matching_reply saddr daddr (snd (pkt_unpack frame)) = None))"

section \<open>Start-up (\<open>main\<close>)\<close>

text \<open>
  The options \<open>main\<close> reads after parsing: the script path and the two addresses, each
  address as the value \<open>ntohl(inet_addr(optarg))\<close> of its argument.
\<close>

record cmdline =
  opt_script :: "string option"
  opt_local_addr :: "u32 option"
  opt_gateway_addr :: "u32 option"

record route =
  gate_addr :: u32
  if_name :: string

text \<open>
  What the operating system answers: the status and result of \<open>routes_get_default\<close>,
  \<open>resolve_ifname_to_mac\<close> and \<open>resolve_ifname_to_ip\<close>, whether \<open>netdev_open\<close> returned a
  device, and \<open>ntohl\<close> of the host.
\<close>

record main_env =
  routes_rc :: int
  default_route :: route
  ifmac_rc :: int
  ifmac :: "u8 list"
  ifip_rc :: int
  ifip :: u32
  netdev_opened :: bool
  ntohl :: "u32 \<Rightarrow> u32"

text \<open>
  Lines 184 to 211 of \<open>main\<close>. The record \<open>args\<close> comes from \<open>malloc\<close>: the fields not
  assigned before keep whatever the memory held.
\<close>

definition main_addrs :: "main_env \<Rightarrow> cmdline \<Rightarrow> pktizr_args \<Rightarrow> abort + pktizr_args" where
  "main_addrs M opts args =
     (if opt_script opts = None then Inl (Fatal ''No script provided'')
      else if routes_rc M < 0 then Inl (Fatal ''Error getting routes'')
      else
        let a1 = (case opt_gateway_addr opts of
                    Some g \<Rightarrow> args\<lparr>local_addr := g\<rparr>
                  | None \<Rightarrow> args\<lparr>gateway_addr := ntohl M (gate_addr (default_route M))\<rparr>)
        in if ifmac_rc M < 0 then Inl (Fatal ''Error resolving local MAC'')
           else
             let a2 = a1\<lparr>local_mac := ifmac M\<rparr> in
             (case opt_local_addr opts of
                Some l \<Rightarrow>
                  if netdev_opened M then Inr (a2\<lparr>local_addr := l\<rparr>)
                  else Inl (Fatal ''Error opening netdev'')
              | None \<Rightarrow>
                  if ifip_rc M < 0 then Inl (Fatal ''Error resolving local IP'')
                  else if netdev_opened M then Inr (a2\<lparr>local_addr := ifip M\<rparr>)
                  else Inl (Fatal ''Error opening netdev'')))"

text \<open>
  Lines 184 to 217: the addresses, then the resolver on
  \<open>(local_mac, local_addr, gateway_mac, gateway_addr)\<close>. The result is the record with
  the gateway MAC filled in and the frames injected, or the early end of the process.
\<close>

definition main_startup ::
  "main_env \<Rightarrow> resolv_env \<Rightarrow> cmdline \<Rightarrow> pktizr_args
     \<Rightarrow> (abort + pktizr_args \<times> u8 list list) option" where
  "main_startup M R opts args =
     (case main_addrs M opts args of
        Inl e \<Rightarrow> Some (Inl e)
      | Inr a \<Rightarrow>
          (case resolv_addr_to_mac R (local_mac a) (local_addr a)
                  (gateway_mac a) (gateway_addr a) of
             None \<Rightarrow> None
           | Some (Inl e) \<Rightarrow> Some (Inl e)
           | Some (Inr (rc, dhost, frames)) \<Rightarrow>
               if rc < 0 then Some (Inl (Fatal ''Error resolving local MAC''))
               else Some (Inr (a\<lparr>gateway_mac := dhost\<rparr>, frames))))"

section \<open>Integer serialisation in the pack helper (\<open>lpack.c\<close>)\<close>

text \<open>
  \<open>lua_Integer\<close> and \<open>lua_Unsigned\<close> are taken to be 64 bits wide (\<open>SZINT = 8\<close>), a byte
  has 8 bits. A \<open>lua_Integer\<close> is the word read with \<open>sint\<close>, the conversion to and from
  \<open>lua_Unsigned\<close> leaves the word as it is.
\<close>

definition NB :: nat where "NB = 8"
definition MC :: u8 where "MC = 255"
definition SZINT :: nat where "SZINT = 8"

datatype lua_error = LuaError string

text \<open>The index expression \<open>islittle ? i : size - 1 - i\<close>, with \<open>sz\<close> for \<open>size\<close>.\<close>

definition buff_index :: "bool \<Rightarrow> nat \<Rightarrow> nat \<Rightarrow> nat" where
  "buff_index islittle sz i = (if islittle then i else sz - 1 - i)"

text \<open>The first loop of \<open>packint\<close>, from \<open>i\<close> on.\<close>

function packint_bytes :: "bool \<Rightarrow> nat \<Rightarrow> nat \<Rightarrow> u64 \<Rightarrow> u8 list \<Rightarrow> u8 list" where
  "packint_bytes islittle sz i n buff =
     (if i < sz then
        (let n' = drop_bit NB n in
         packint_bytes islittle sz (i + 1) n'
           (buff[buff_index islittle sz i := ucast (n' AND ucast MC)]))
      else buff)"
  by pat_completeness auto
termination
  by (relation "measure (\<lambda>(islittle, sz, i, n, buff). sz - i)") auto

declare packint_bytes.simps [simp del]

text \<open>The second loop of \<open>packint\<close>, from \<open>i\<close> on: the bytes beyond \<open>SZINT\<close> become \<open>MC\<close>.\<close>

function packint_extend :: "bool \<Rightarrow> nat \<Rightarrow> nat \<Rightarrow> u8 list \<Rightarrow> u8 list" where
  "packint_extend islittle sz i buff =
     (if i < sz then
        packint_extend islittle sz (i + 1) (buff[buff_index islittle sz i := MC])
      else buff)"
  by pat_completeness auto
termination
  by (relation "measure (\<lambda>(islittle, sz, i, buff). sz - i)") auto

declare packint_extend.simps [simp del]

text \<open>
  \<open>packint\<close>. \<open>area\<close> is the room of \<open>size\<close> bytes that \<open>luaL_prepbuffsize\<close> returned, with
  whatever it holds; the result is the room as \<open>luaL_addsize\<close> adds it to the buffer.
\<close>

definition packint :: "u8 list \<Rightarrow> u64 \<Rightarrow> bool \<Rightarrow> nat \<Rightarrow> bool \<Rightarrow> u8 list" where
  "packint area n islittle sz neg =
     (let buff = area[buff_index islittle sz 0 := ucast (n AND ucast MC)];
          buff = packint_bytes islittle sz 1 n buff
      in if neg \<and> sz > SZINT then packint_extend islittle sz SZINT buff else buff)"

text \<open>
  The first loop of \<open>unpackint\<close>, with \<open>k = i + 1\<close> passes left: \<open>i\<close> runs from \<open>limit - 1\<close>
  down to \<open>0\<close>.
\<close>

fun unpackint_bytes :: "bool \<Rightarrow> nat \<Rightarrow> u8 list \<Rightarrow> nat \<Rightarrow> u64 \<Rightarrow> u64" where
  "unpackint_bytes islittle sz str 0 res = res"
| "unpackint_bytes islittle sz str (Suc i) res =
     unpackint_bytes islittle sz str i
       (push_bit NB res OR ucast (str ! buff_index islittle sz i))"

text \<open>
  \<open>unpackint\<close> on the bytes at \<open>str\<close>. \<open>str_unpack\<close> has checked before the call that
  \<open>size\<close> bytes are there (``data string too short''); the check is repeated here, so
  that no byte is read beyond the data. \<open>luaL_error\<close> does not return.
\<close>

definition unpackint :: "u8 list \<Rightarrow> bool \<Rightarrow> nat \<Rightarrow> bool \<Rightarrow> lua_error + u64" where
  "unpackint str islittle sz issigned =
     (if length str < sz then Inl (LuaError ''data string too short'')
      else
        let limit = (if sz \<le> SZINT then sz else SZINT);
            res = unpackint_bytes islittle sz str limit 0
        in if sz < SZINT then
             (if issigned then
                (let mask = (push_bit (sz * NB - 1) 1 :: u64)
                 in Inr ((res XOR mask) - mask))
              else Inr res)
           else if sz > SZINT then
             (let mask = (if \<not> issigned \<or> 0 \<le> sint res then 0 else MC)
              in if list_ex (\<lambda>i. str ! buff_index islittle sz i \<noteq> mask) [limit..<sz]
                 then Inl (LuaError ''integer does not fit into Lua Integer'')
                 else Inr res)
           else Inr res)"

section \<open>Concrete inputs\<close>

text \<open>
  Small inputs on which the properties below are evaluated: pack and unpack functions
  with fixed answers, a probe packet, an Ethernet-only chain, the scan of three targets
  and two ports with two duplicates, an ARP reply from 10.0.0.1 to 10.0.0.5, and a
  little-endian host with its default route through 10.0.0.1.
\<close>

definition pack_fails :: pack_fn where
  "pack_fails len pkt = (- 1, [])"

definition pack_two_bytes :: pack_fn where
  "pack_two_bytes len pkt = (2, [0xde, 0xad, 0, 0])"

definition probe_pkt :: pkt where
  "probe_pkt = Pkt TYPE_IP4 True None"

definition send_state0 :: send_state where
  "send_state0 = \<lparr>pkt_sent = 0, pkt_probe = 0, send_tokens = 3, injected = [], send_freed = []\<rparr>"

definition eth_only :: pkt where
  "eth_only = Pkt (TYPE_ETH \<lparr>eth_src = [2, 0, 0, 0, 0, 1], eth_dst = [2, 0, 0, 0, 0, 2],
                            eth_type = 0x88cc\<rparr>) False None"

definition unpack_one_layer :: unpack_fn where
  "unpack_one_layer buf = (1, Some eth_only)"

definition unpack_truncated :: unpack_fn where
  "unpack_truncated buf = (0, None)"

definition script_accepts :: "pkt option \<Rightarrow> int" where
  "script_accepts pkt = 0"

definition recv_state0 :: recv_state where
  "recv_state0 = \<lparr>pkt_recv = 0, recv_upcalls = [], recv_freed = [], released = 0\<rparr>"

definition scan_args :: pktizr_args where
  "scan_args = \<lparr>targets = [0x0A000001, 0x0A000002, 0x0A000003], ports = [22, 80],
     rate = 0, count = 2, local_mac = [2, 0, 0, 0, 0, 1], local_addr = 0x0A0000FE,
     gateway_mac = [2, 0, 0, 0, 0, 2], gateway_addr = 0x0A0000FF\<rparr>"

definition quiet_env :: loop_env where
  "quiet_env = \<lparr>stop_at = (\<lambda>i. False), bucket_consume = (\<lambda>i t. t),
     script_loop = (\<lambda>i daddr dport. 0)\<rparr>"

definition refusing_env :: loop_env where
  "refusing_env = \<lparr>stop_at = (\<lambda>i. False), bucket_consume = (\<lambda>i t. t + 1),
     script_loop = (\<lambda>i daddr dport. if i = 1 then - 1 else 0)\<rparr>"

definition loop_state0 :: loop_state where
  "loop_state0 = \<lparr>loop_tokens = 0, picked = [(0, 0)], loop_calls = [(0x0A000001, 22)]\<rparr>"

definition reply_arp :: arp_hdr where
  "reply_arp = \<lparr>hwtype = 1, arp_ptype = 0x0800, arp_op = 2,
     hwsrc = [2, 0, 0, 0, 0, 0xaa], psrc = [10, 0, 0, 1],
     hwdst = [2, 0, 0, 0, 0, 1], pdst = [10, 0, 0, 5]\<rparr>"

definition reply_chain :: pkt where
  "reply_chain =
     Pkt (TYPE_ETH \<lparr>eth_src = [2, 0, 0, 0, 0, 0xaa], eth_dst = [2, 0, 0, 0, 0, 1],
                    eth_type = 0x0806\<rparr>) False
       (Some (Pkt (TYPE_ARP reply_arp) False None))"

definition unpack_reply :: unpack_fn where
  "unpack_reply buf = (2, Some reply_chain)"

definition pack_request :: pack_fn where
  "pack_request len pkt = (42, replicate 42 0)"

definition ntohl_le :: "u32 \<Rightarrow> u32" where
  "ntohl_le a = push_bit 24 (a AND 0xff) OR push_bit 8 (a AND 0xff00)
     OR drop_bit 8 (a AND 0xff0000) OR drop_bit 24 a"

definition host_env :: main_env where
  "host_env = \<lparr>routes_rc = 0, default_route = \<lparr>gate_addr = 0x0100000A, if_name = ''eth0''\<rparr>,
     ifmac_rc = 0, ifmac = [2, 0, 0, 0, 0, 1], ifip_rc = 0, ifip = 0x0A000005,
     netdev_opened = True, ntohl = ntohl_le\<rparr>"

definition malloc_args :: pktizr_args where
  "malloc_args = \<lparr>targets = [0x0A000001], ports = [1], rate = 100, count = 1,
     local_mac = [0, 0, 0, 0, 0, 0], local_addr = 0,
     gateway_mac = [0, 0, 0, 0, 0, 0], gateway_addr = 0\<rparr>"

definition route_opts :: cmdline where
  "route_opts = \<lparr>opt_script = Some ''scan.lua'', opt_local_addr = None,
     opt_gateway_addr = None\<rparr>"

definition gateway_opts :: cmdline where
  "gateway_opts = \<lparr>opt_script = Some ''scan.lua'', opt_local_addr = None,
     opt_gateway_addr = Some 0xC0A80101\<rparr>"

definition silent_net :: resolv_env where
  "silent_net = \<lparr>r_pkt_pack = pack_request, r_pkt_unpack = unpack_one_layer, r_start = 0,
     r_observed = [(None, 1000), (Some [], 2000), (None, 5000001)]\<rparr>"

definition resolved_args :: pktizr_args where
  "resolved_args = malloc_args\<lparr>gateway_addr := 0x0A000001, local_mac := [2, 0, 0, 0, 0, 1],
     local_addr := 0x0A000005\<rparr>"

definition full_bucket :: send_state where
  "full_bucket = \<lparr>pkt_sent = 0, pkt_probe = 0, send_tokens = 10000000000000000,
     injected = [], send_freed = []\<rparr>"

definition recv_observed :: "(bool \<times> u8 list option) list" where
  "recv_observed = [(False, Some [0, 1, 2]), (False, None)]"

definition refill_one :: "real \<Rightarrow> real" where
  "refill_one t = t + 1"

definition send_observed :: "(bool \<times> (real \<Rightarrow> real) \<times> (bool \<times> pkt option) list) list" where
  "send_observed = [(False, refill_one, [(False, Some probe_pkt), (False, None)])]"

definition main_state0 :: main_state where
  "main_state0 = \<lparr>args_done = False, main_trace = []\<rparr>"

section \<open>Properties of the token count\<close>

text \<open>
  A number \<open>m * 2 ^ k\<close> with \<open>m\<close> of at most 53 bits is a \<open>double\<close>: rounding leaves it
  as it is.
\<close>

lemma round_even_of_int: "round_even (of_int n) = n"
  by (simp add: round_even_def)

lemma double_round_exact:
  assumes y: "y = of_int m * 2 powr of_int k" and m: "\<bar>m\<bar> < 2 ^ 53"
  shows "double_round y = y"
proof (cases "m = 0")
  case True
  with y show ?thesis by (simp add: double_round_def)
next
  case False
  then have y0: "y \<noteq> 0" using y by simp
  have ay: "\<bar>y\<bar> = of_int \<bar>m\<bar> * 2 powr of_int k" using y by (simp add: abs_mult)
  have "of_int \<bar>m\<bar> < (2::real) ^ 53" using m by (metis of_int_less_numeral_power_cancel_iff)
  then have "\<bar>y\<bar> < 2 ^ 53 * 2 powr of_int k" unfolding ay by simp
  also have "\<dots> = 2 powr (of_int (53 + k))"
    by (simp add: powr_add powr_realpow [symmetric])
  finally have lt: "\<bar>y\<bar> < 2 powr of_int (53 + k)" .
  define e where "e = \<lfloor>log 2 \<bar>y\<bar>\<rfloor>"
  have "2 powr of_int e \<le> \<bar>y\<bar>"
    using floor_log_eq_powr_iff [of "\<bar>y\<bar>" 2 e] y0 by (simp add: e_def)
  with lt have "2 powr of_int e < (2::real) powr of_int (53 + k)" by linarith
  then have "e < 53 + k" by simp
  define d where "d = nat (k - (e - 52))"
  have d: "k = e - 52 + int d" using \<open>e < 53 + k\<close> by (simp add: d_def)
  have "y / 2 powr of_int (e - 52) = of_int m * 2 powr (of_int k - of_int (e - 52))"
    unfolding y by (simp add: powr_diff)
  also have "of_int k - of_int (e - 52) = (real d)" using d by simp
  also have "of_int m * 2 powr (real d) = of_int (m * 2 ^ d)"
    by (simp add: powr_realpow)
  finally have q: "y / 2 powr of_int (e - 52) = of_int (m * 2 ^ d)" .
  have r: "round_even (y / 2 powr of_int (e - 52)) = m * 2 ^ d"
    unfolding q by (rule round_even_of_int)
  have "double_round y = of_int (round_even (y / 2 powr of_int (e - 52))) * 2 powr of_int (e - 52)"
    using y0 unfolding double_round_def Let_def e_def by simp
  also have "\<dots> = of_int (m * 2 ^ d) * 2 powr of_int (e - 52)" by (simp only: r)
  also have "\<dots> = y / 2 powr of_int (e - 52) * 2 powr of_int (e - 52)" by (simp only: q)
  also have "\<dots> = y" by simp
  finally show ?thesis .
qed

text \<open>
  Hence the decrement of a \<open>double\<close> between \<open>1\<close> and \<open>2 ^ 53\<close> is exact. Above, it need
  not be: \<open>10 ^ 16 - 1\<close> lies halfway between two neighbouring \<open>double\<close>s and rounds back
  to \<open>10 ^ 16\<close>.
\<close>

lemma double_dec_exact:
  assumes t: "t = of_int m * 2 powr of_int k" and m: "\<bar>m\<bar> < 2 ^ 53"
    and lo: "1 \<le> t" and hi: "t \<le> 2 ^ 53"
  shows "double_dec t = t - 1"
proof (cases "0 \<le> k")
  case True
  define n where "n = m * 2 ^ nat k"
  have tn: "t = of_int n"
    using True by (simp add: t n_def powr_realpow [symmetric])
  with lo hi have "1 \<le> n" and "n \<le> 2 ^ 53"
    by (simp_all add: of_int_le_numeral_power_cancel_iff [symmetric] del: of_int_le_numeral_power_cancel_iff)
  then have "\<bar>n - 1\<bar> < 2 ^ 53" by simp
  moreover have "t - 1 = of_int (n - 1) * 2 powr of_int 0" by (simp add: tn)
  ultimately show ?thesis
    unfolding double_dec_def by (rule double_round_exact [rotated])
next
  case False
  define j where "j = nat (- k)"
  have k: "k = - int j" using False by (simp add: j_def)
  have p: "(2::real) powr of_int k = 1 / 2 ^ j"
    by (simp add: k powr_minus powr_realpow inverse_eq_divide)
  from lo have "(2::real) ^ j \<le> of_int m" by (simp add: t p field_simps)
  then have "(2::int) ^ j \<le> m"
    by (metis of_int_le_iff of_int_numeral of_int_power)
  moreover have "(0::int) < 2 ^ j" by simp
  ultimately have "\<bar>m - 2 ^ j\<bar> < 2 ^ 53" using m by linarith
  moreover have "t - 1 = of_int (m - 2 ^ j) * 2 powr of_int k"
    by (simp add: t p field_simps)
  ultimately show ?thesis
    unfolding double_dec_def by (rule double_round_exact [rotated])
qed

lemma double_dec_small:
  assumes "1 \<le> n" and "n \<le> 2 ^ 53"
  shows "double_dec (of_int n) = of_int n - 1"
proof -
  have "(of_int n :: real) = of_int n * 2 powr of_int 0" by simp
  moreover have "\<bar>n - 1\<bar> < 2 ^ 53" using assms by simp
  moreover have "(of_int n :: real) - 1 = of_int (n - 1) * 2 powr of_int 0" by simp
  ultimately show ?thesis
    unfolding double_dec_def using double_round_exact [of "of_int n - 1" "n - 1" 0] by simp
qed

lemma double_dec_3: "double_dec 3 = 2"
  using double_dec_small [of 3] by simp

lemma double_dec_4: "double_dec 4 = 3"
  using double_dec_small [of 4] by simp

lemma floor_log2_1e16: "\<lfloor>log 2 \<bar>9999999999999999 :: real\<bar>\<rfloor> = 53"
proof -
  have "(2::real) powr of_int 53 \<le> 9999999999999999 \<and> (9999999999999999::real) < 2 powr of_int (53 + 1)"
    by (simp add: powr_numeral)
  then show ?thesis
    using floor_log_eq_powr_iff [of "9999999999999999 :: real" 2 53] by simp
qed

lemma double_dec_1e16: "double_dec 10000000000000000 = 10000000000000000"
proof -
  have f: "\<lfloor>9999999999999999 / 2 :: real\<rfloor> = 4999999999999999" by linarith
  have "round_even (9999999999999999 / 2) = 5000000000000000"
    by (simp add: round_even_def Let_def f)
  then show ?thesis
    using floor_log2_1e16 by (simp add: double_dec_def double_round_def)
qed

lemma double_round_1e16: "double_round 10000000000000000 = 10000000000000000"
  using double_round_exact [of 10000000000000000 152587890625 16] by (simp add: powr_numeral)

section \<open>Properties of the transmitter\<close>

text \<open>
  C6, as stated, fails: with a token count of \<open>10 ^ 16\<close> (a \<open>double\<close>, reached with
  \<open>--rate 10000000000000000\<close> once the bucket is full), a packet that packs is injected
  and the count after \<open>tokens--\<close> is still \<open>10 ^ 16\<close>; the packet has cost no token.
\<close>

theorem send_pkt_full_bucket_counterexample:
  "\<not> fst (pack_two_bytes 64 probe_pkt) < 0
   \<and> double_round (send_tokens full_bucket) = send_tokens full_bucket
   \<and> send_tokens (send_pkt pack_two_bytes 64 probe_pkt full_bucket) = send_tokens full_bucket"
  by (simp add: send_pkt_def pack_two_bytes_def probe_pkt_def full_bucket_def
      double_round_1e16 double_dec_1e16)

text \<open>
  C6, amended. In the transmitter loop, a dequeued packet for which \<open>pkt_pack\<close> returns a
  negative value is freed without being injected, with \<open>pkt_sent\<close>, \<open>pkt_probe\<close> and the
  token count unchanged; a packet that packs is injected, adds one to \<open>pkt_sent\<close>, has
  \<open>tokens--\<close> applied to the token count once, adds one to \<open>pkt_probe\<close> exactly when its
  probe flag is set, and is freed. The decrement is made in \<open>double\<close> arithmetic: it costs
  exactly one token when the count is a \<open>double\<close> between \<open>1\<close> and \<open>2 ^ 53\<close>.
\<close>

theorem send_pkt_pack_outcome:
  "(fst (pkt_pack len pkt) < 0 \<longrightarrow>
      send_pkt pkt_pack len pkt s = s\<lparr>send_freed := send_freed s @ [pkt]\<rparr>)
   \<and> (\<not> fst (pkt_pack len pkt) < 0 \<longrightarrow>
      send_pkt pkt_pack len pkt s =
        s\<lparr>injected := injected s @ [take (nat (fst (pkt_pack len pkt))) (snd (pkt_pack len pkt))],
          pkt_sent := pkt_sent s + 1,
          send_tokens := double_dec (send_tokens s),
          pkt_probe := (if probe pkt then pkt_probe s + 1 else pkt_probe s),
          send_freed := send_freed s @ [pkt]\<rparr>)
   \<and> (send_tokens s = of_int m * 2 powr of_int k \<and> \<bar>m\<bar> < 2 ^ 53
        \<and> 1 \<le> send_tokens s \<and> send_tokens s \<le> 2 ^ 53 \<longrightarrow>
      double_dec (send_tokens s) = send_tokens s - 1)"
proof -
  have "send_tokens s = of_int m * 2 powr of_int k \<and> \<bar>m\<bar> < 2 ^ 53
        \<and> 1 \<le> send_tokens s \<and> send_tokens s \<le> 2 ^ 53 \<longrightarrow>
      double_dec (send_tokens s) = send_tokens s - 1"
    using double_dec_exact [of "send_tokens s" m k] by blast
  then show ?thesis
    by (cases "pkt_pack len pkt") (simp add: send_pkt_def Let_def)
qed

theorem send_pkt_pack_outcome_witness:
  "fst (pack_fails 64 probe_pkt) < 0
   \<and> send_pkt pack_fails 64 probe_pkt send_state0 =
       \<lparr>pkt_sent = 0, pkt_probe = 0, send_tokens = 3, injected = [], send_freed = [probe_pkt]\<rparr>
   \<and> \<not> fst (pack_two_bytes 64 probe_pkt) < 0
   \<and> send_pkt pack_two_bytes 64 probe_pkt send_state0 =
       \<lparr>pkt_sent = 1, pkt_probe = 1, send_tokens = 2, injected = [[0xde, 0xad]],
        send_freed = [probe_pkt]\<rparr>
   \<and> send_tokens send_state0 = of_int 3 * 2 powr of_int 0 \<and> \<bar>3 :: int\<bar> < 2 ^ 53
   \<and> 1 \<le> send_tokens send_state0 \<and> send_tokens send_state0 \<le> 2 ^ 53
   \<and> double_dec (send_tokens send_state0) = send_tokens send_state0 - 1"
  using send_pkt_pack_outcome [of pack_fails 64 probe_pkt send_state0 3 0]
    send_pkt_pack_outcome [of pack_two_bytes 64 probe_pkt send_state0 3 0]
  by (simp add: pack_fails_def pack_two_bytes_def probe_pkt_def send_state0_def double_dec_3)

section \<open>Properties of the receiver\<close>

text \<open>
  C4, as stated, fails: a frame for which \<open>pkt_unpack\<close> returns one layer (fewer than
  two) is handed to the script's \<open>recv\<close> upcall, and \<open>pkt_recv\<close> is incremented when the
  upcall accepts it.
\<close>

theorem recv_one_layer_counterexample:
  "fst (unpack_one_layer [0, 1, 2]) < 2
   \<and> recv_frame unpack_one_layer script_accepts (Some [0, 1, 2]) recv_state0 =
       \<lparr>pkt_recv = 1, recv_upcalls = [Some eth_only], recv_freed = [Some eth_only],
        released = 1\<rparr>"
  by (simp add: recv_frame_def unpack_one_layer_def script_accepts_def recv_state0_def)

text \<open>
  C4, amended. A captured frame for which \<open>pkt_unpack\<close> returns zero is released with no
  \<open>recv\<close> upcall, no \<open>pkt_free\<close> and \<open>pkt_recv\<close> unchanged; for any other return value
  the unpacked chain is handed to the \<open>recv\<close> upcall.
\<close>

theorem recv_frame_unpack_zero:
  "(fst (pkt_unpack buf) = 0 \<longrightarrow>
      recv_frame pkt_unpack script_recv (Some buf) s = s\<lparr>released := released s + 1\<rparr>)
   \<and> (fst (pkt_unpack buf) \<noteq> 0 \<longrightarrow>
      recv_upcalls (recv_frame pkt_unpack script_recv (Some buf) s) =
        recv_upcalls s @ [snd (pkt_unpack buf)])"
  by (cases "pkt_unpack buf") (simp add: recv_frame_def Let_def)

theorem recv_frame_unpack_zero_witness:
  "fst (unpack_truncated [0, 1, 2]) = 0
   \<and> recv_frame unpack_truncated script_accepts (Some [0, 1, 2]) recv_state0 =
       \<lparr>pkt_recv = 0, recv_upcalls = [], recv_freed = [], released = 1\<rparr>
   \<and> fst (unpack_one_layer [0, 1, 2]) \<noteq> 0
   \<and> recv_upcalls (recv_frame unpack_one_layer script_accepts (Some [0, 1, 2]) recv_state0) =
       [Some eth_only]"
  using recv_frame_unpack_zero [of unpack_truncated "[0, 1, 2]" script_accepts recv_state0]
    recv_frame_unpack_zero [of unpack_one_layer "[0, 1, 2]" script_accepts recv_state0]
  by (simp add: unpack_truncated_def unpack_one_layer_def recv_state0_def)

section \<open>Properties of the generator\<close>

text \<open>
  The loop bound is at most the product of the three counts, so an index below it leaves
  the divisors non-zero and the two pick indices in range.
\<close>

lemma tot_cnt_le: "tot_cnt A \<le> range_list_count (targets A) * range_list_count (ports A) * count A"
  by (simp add: tot_cnt_def)

lemma tot_cnt_factors:
  assumes "i < tot_cnt A"
  shows "0 < range_list_count (targets A)" and "0 < count A"
    and "i < range_list_count (targets A) * range_list_count (ports A) * count A"
proof -
  let ?N = "range_list_count (targets A) * range_list_count (ports A) * count A"
  show lt: "i < ?N" using assms tot_cnt_le [of A] by linarith
  then have "0 < ?N" by linarith
  then show "0 < range_list_count (targets A)" and "0 < count A" by simp_all
qed

lemma target_index_less:
  assumes "i < tot_cnt A"
  shows "target_index A i < range_list_count (targets A)"
proof -
  have "0 < range_list_count (targets A)" using assms by (rule tot_cnt_factors)
  then have "i mod range_list_count (targets A) < range_list_count (targets A)" by simp
  moreover have "(i mod range_list_count (targets A)) div count A
      \<le> i mod range_list_count (targets A)" by (rule div_le_dividend)
  ultimately show ?thesis unfolding target_index_def by linarith
qed

lemma port_index_less:
  assumes "i < tot_cnt A"
  shows "port_index A i < range_list_count (ports A)"
proof -
  let ?T = "range_list_count (targets A)" and ?P = "range_list_count (ports A)"
  have T: "0 < ?T" and C: "0 < count A" and lt: "i < ?T * ?P * count A"
    using assms by (rule tot_cnt_factors)+
  have "?T * ?P * count A = (?P * count A) * ?T" by (simp only: mult_ac)
  with lt have "i < (?P * count A) * ?T" by simp
  with T have "i div ?T < ?P * count A" by (simp add: less_mult_imp_div_less)
  with C have "(i div ?T) div count A < ?P" by (simp add: less_mult_imp_div_less)
  then show ?thesis by (simp add: port_index_def)
qed

text \<open>Hence no pass of the loop ends the process, and its effect is the following.\<close>

lemma loop_iter_in_range:
  assumes "i < tot_cnt A"
  shows "loop_iter A E i s =
    (let daddr = targets A ! target_index A i;
         dport = (ucast (ports A ! port_index A i) :: u16);
         s2 = s\<lparr>loop_tokens := bucket_consume E i (loop_tokens s),
                picked := picked s @ [(target_index A i, port_index A i)],
                loop_calls := loop_calls s @ [(daddr, dport)]\<rparr>
     in if script_loop E i daddr dport < 0 then Inr s2
        else Inr (s2\<lparr>loop_tokens := double_dec (loop_tokens s2)\<rparr>))"
proof -
  have "0 < range_list_count (targets A)" and "0 < count A"
    using assms by (rule tot_cnt_factors)+
  moreover have "target_index A i < length (targets A)"
    using target_index_less [OF assms] by (simp add: range_list_count_def)
  moreover have "port_index A i < length (ports A)"
    using port_index_less [OF assms] by (simp add: range_list_count_def)
  ultimately show ?thesis
    by (simp add: loop_iter_def range_list_pick_def Let_def)
qed

text \<open>
  The trace of the loop from index \<open>i\<close> while \<open>stop\<close> is not seen: one pick and one upcall
  for each index up to the bound.
\<close>

lemma loop_from_trace:
  assumes "\<forall>j. i \<le> j \<and> j < tot_cnt A \<longrightarrow> \<not> stop_at E j"
  shows "\<exists>s'. loop_from A E i s = Inr s'
     \<and> picked s' = picked s @ map (\<lambda>j. (target_index A j, port_index A j)) [i..<tot_cnt A]
     \<and> loop_calls s' = loop_calls s @
          map (\<lambda>j. (targets A ! target_index A j, ucast (ports A ! port_index A j)))
            [i..<tot_cnt A]"
  using assms
proof (induction "tot_cnt A - i" arbitrary: i s)
  case 0
  then have "\<not> i < tot_cnt A" by simp
  then show ?case by (simp add: loop_from.simps)
next
  case (Suc k)
  then have lt: "i < tot_cnt A" and ns: "\<not> stop_at E i" by auto
  obtain s1 where it: "loop_iter A E i s = Inr s1"
    and p1: "picked s1 = picked s @ [(target_index A i, port_index A i)]"
    and c1: "loop_calls s1 = loop_calls s @
        [(targets A ! target_index A i, ucast (ports A ! port_index A i))]"
    by (cases "script_loop E i (targets A ! target_index A i)
          (ucast (ports A ! port_index A i)) < 0")
      (simp_all add: loop_iter_in_range [OF lt] Let_def)
  have "k = tot_cnt A - (i + 1)" using Suc.hyps(2) by simp
  moreover have "\<forall>j. i + 1 \<le> j \<and> j < tot_cnt A \<longrightarrow> \<not> stop_at E j"
    using Suc.prems by simp
  ultimately obtain s' where r: "loop_from A E (i + 1) s1 = Inr s'"
    and p': "picked s' = picked s1 @
        map (\<lambda>j. (target_index A j, port_index A j)) [i + 1..<tot_cnt A]"
    and c': "loop_calls s' = loop_calls s1 @
        map (\<lambda>j. (targets A ! target_index A j, ucast (ports A ! port_index A j)))
          [i + 1..<tot_cnt A]"
    using Suc.hyps(1) [of "i + 1" s1] by blast
  have "loop_from A E i s = Inr s'"
    using lt ns it r by (subst loop_from.simps) simp
  moreover have "[i..<tot_cnt A] = i # [i + 1..<tot_cnt A]"
    using lt by (simp add: upt_conv_Cons)
  ultimately show ?case using p1 c1 p' c' by simp
qed

lemma tot_cnt_scan_args: "tot_cnt scan_args = 12"
  by (simp add: tot_cnt_def scan_args_def range_list_count_def)

lemma upt_12: "[0..<12] = [0, 1, 2, 3, 4, 5, 6, 7, 8, 9, 10, 11::nat]"
  by code_simp

text \<open>
  C5. With \<open>T\<close> targets, \<open>P\<close> ports and \<open>C\<close> duplicates, \<open>N = T * P * C\<close> within the range of
  \<open>size_t\<close> and \<open>stop\<close> not set, the generator runs through every \<open>i\<close> in \<open>[0, N)\<close> and
  at \<open>i\<close> picks the target at index \<open>(i mod T) div C\<close> and the port at index
  \<open>(i div T) div C\<close>; these are the arguments of the \<open>loop\<close> upcall.
\<close>

theorem loop_cb_pick_indices:
  assumes "T = range_list_count (targets A)" and "P = range_list_count (ports A)"
    and "C = count A" and "T * P * C < 2 ^ 64"
    and "\<forall>i<T * P * C. \<not> stop_at E i"
  shows "\<exists>s. loop_cb A E tokens0 = Inr s
     \<and> picked s = map (\<lambda>i. ((i mod T) div C, (i div T) div C)) [0..<T * P * C]
     \<and> loop_calls s =
         map (\<lambda>i. (targets A ! ((i mod T) div C), ucast (ports A ! ((i div T) div C))))
           [0..<T * P * C]"
proof -
  have N: "tot_cnt A = T * P * C" using assms(1-4) by (simp add: tot_cnt_def)
  then have "\<forall>j. 0 \<le> j \<and> j < tot_cnt A \<longrightarrow> \<not> stop_at E j" using assms(5) by simp
  from loop_from_trace [OF this, of "\<lparr>loop_tokens = tokens0, picked = [], loop_calls = []\<rparr>"]
  show ?thesis
    using N assms(1,3) by (simp add: loop_cb_def target_index_def port_index_def)
qed

theorem loop_cb_pick_indices_witness:
  "3 * 2 * 2 < (2::nat) ^ 64 \<and> \<not> (\<exists>i<3 * 2 * 2. stop_at quiet_env i)
   \<and> (\<exists>s. loop_cb scan_args quiet_env 0 = Inr s
      \<and> picked s = [(0, 0), (0, 0), (1, 0), (0, 0), (0, 0), (1, 0),
                     (0, 1), (0, 1), (1, 1), (0, 1), (0, 1), (1, 1)])"
proof -
  have h: "\<forall>i<3 * 2 * 2. \<not> stop_at quiet_env i" by (simp add: quiet_env_def)
  have "(3::nat) = range_list_count (targets scan_args)"
    and "(2::nat) = range_list_count (ports scan_args)" and "(2::nat) = count scan_args"
    by (simp_all add: scan_args_def range_list_count_def)
  from loop_cb_pick_indices [OF this _ h, of 0]
  obtain s where "loop_cb scan_args quiet_env 0 = Inr s"
    and "picked s = map (\<lambda>i. ((i mod 3) div 2, (i div 3) div 2)) [0..<3 * 2 * 2]"
    by auto
  then have "loop_cb scan_args quiet_env 0 = Inr s
      \<and> picked s = [(0, 0), (0, 0), (1, 0), (0, 0), (0, 0), (1, 0),
                     (0, 1), (0, 1), (1, 1), (0, 1), (0, 1), (1, 1)]"
    by (simp add: upt_12)
  moreover have "3 * 2 * 2 < (2::nat) ^ 64" by simp
  ultimately show ?thesis using h by blast
qed

text \<open>
  C9. In a pass of the generator loop where the \<open>loop\<close> upcall returns a negative status,
  the token count is left as \<open>bucket_consume\<close> set it (no decrement), and the loop goes on
  with the next index.
\<close>

theorem loop_negative_status_skips:
  assumes "i < tot_cnt A" and "\<not> stop_at E i"
    and "range_list_pick (targets A) (target_index A i) = Some daddr"
    and "range_list_pick (ports A) (port_index A i) = Some prt"
    and "script_loop E i daddr (ucast prt) < 0"
  shows "\<exists>s'. loop_iter A E i s = Inr s'
     \<and> loop_tokens s' = bucket_consume E i (loop_tokens s)
     \<and> loop_calls s' = loop_calls s @ [(daddr, ucast prt)]
     \<and> loop_from A E i s = loop_from A E (i + 1) s'"
proof -
  have "0 < range_list_count (targets A)" and "0 < count A"
    using assms(1) by (rule tot_cnt_factors)+
  then have "loop_iter A E i s =
      Inr (s\<lparr>loop_tokens := bucket_consume E i (loop_tokens s),
             picked := picked s @ [(target_index A i, port_index A i)],
             loop_calls := loop_calls s @ [(daddr, ucast prt)]\<rparr>)"
    using assms(3-5) by (simp add: loop_iter_def Let_def)
  moreover from this have "loop_from A E i s =
      loop_from A E (i + 1) (s\<lparr>loop_tokens := bucket_consume E i (loop_tokens s),
             picked := picked s @ [(target_index A i, port_index A i)],
             loop_calls := loop_calls s @ [(daddr, ucast prt)]\<rparr>)"
    using assms(1,2) by (subst loop_from.simps) simp
  ultimately show ?thesis by simp
qed

theorem loop_negative_status_skips_witness:
  "1 < tot_cnt scan_args \<and> \<not> stop_at refusing_env 1
   \<and> range_list_pick (targets scan_args) (target_index scan_args 1) = Some 0x0A000001
   \<and> range_list_pick (ports scan_args) (port_index scan_args 1) = Some 22
   \<and> script_loop refusing_env 1 0x0A000001 (ucast (22 :: u32)) < 0
   \<and> (\<exists>s'. loop_iter scan_args refusing_env 1 loop_state0 = Inr s'
      \<and> loop_tokens s' = 1
      \<and> loop_calls s' = [(0x0A000001, 22), (0x0A000001, 22)]
      \<and> loop_from scan_args refusing_env 1 loop_state0 = loop_from scan_args refusing_env 2 s')"
proof -
  have h1: "1 < tot_cnt scan_args" by (simp add: tot_cnt_scan_args)
  have h2: "\<not> stop_at refusing_env 1" by (simp add: refusing_env_def)
  have h3: "range_list_pick (targets scan_args) (target_index scan_args 1) = Some 0x0A000001"
    by (simp add: range_list_pick_def target_index_def range_list_count_def scan_args_def)
  have h4: "range_list_pick (ports scan_args) (port_index scan_args 1) = Some 22"
    by (simp add: range_list_pick_def port_index_def range_list_count_def scan_args_def)
  have h5: "script_loop refusing_env 1 0x0A000001 (ucast (22 :: u32)) < 0"
    by (simp add: refusing_env_def)
  from loop_negative_status_skips [OF h1 h2 h3 h4 h5, of loop_state0]
  obtain s' where a: "loop_iter scan_args refusing_env 1 loop_state0 = Inr s'"
    and b: "loop_tokens s' = bucket_consume refusing_env 1 (loop_tokens loop_state0)"
    and c: "loop_calls s' = loop_calls loop_state0 @ [(0x0A000001, ucast (22 :: u32))]"
    and d: "loop_from scan_args refusing_env 1 loop_state0 =
      loop_from scan_args refusing_env (1 + 1) s'"
    by blast
  have "loop_tokens s' = 1" using b by (simp add: refusing_env_def loop_state0_def)
  moreover have "loop_calls s' = [(0x0A000001, 22), (0x0A000001, 22)]"
    using c by (simp add: loop_state0_def)
  moreover have "loop_from scan_args refusing_env 1 loop_state0 =
      loop_from scan_args refusing_env 2 s'"
    using d by (simp only: one_add_one)
  ultimately show ?thesis using a h1 h2 h3 h4 h5 by blast
qed

text \<open>
  C1 on three targets, two ports and two duplicates. The loop makes \<open>12\<close> upcalls, but the
  pair of the first target and the first port is emitted four times, not twice, its
  duplicates are not consecutive, and the third target is never emitted.
\<close>

theorem loop_cb_duplicates_scan:
  "\<exists>s. loop_cb scan_args quiet_env 0 = Inr s
     \<and> loop_calls s = [(0x0A000001, 22), (0x0A000001, 22), (0x0A000002, 22),
                       (0x0A000001, 22), (0x0A000001, 22), (0x0A000002, 22),
                       (0x0A000001, 80), (0x0A000001, 80), (0x0A000002, 80),
                       (0x0A000001, 80), (0x0A000001, 80), (0x0A000002, 80)]
     \<and> count_list (loop_calls s) (0x0A000001, 22) = 4
     \<and> count_list (loop_calls s) (0x0A000003, 22) = 0"
proof -
  have "\<forall>j. 0 \<le> j \<and> j < tot_cnt scan_args \<longrightarrow> \<not> stop_at quiet_env j"
    by (simp add: quiet_env_def)
  from loop_from_trace [OF this, of "\<lparr>loop_tokens = 0, picked = [], loop_calls = []\<rparr>"]
  obtain s where r: "loop_cb scan_args quiet_env 0 = Inr s"
    and c: "loop_calls s =
      map (\<lambda>j. (targets scan_args ! target_index scan_args j,
                 ucast (ports scan_args ! port_index scan_args j))) [0..<12]"
    by (auto simp: loop_cb_def tot_cnt_scan_args)
  have l: "loop_calls s = [(0x0A000001, 22), (0x0A000001, 22), (0x0A000002, 22),
                       (0x0A000001, 22), (0x0A000001, 22), (0x0A000002, 22),
                       (0x0A000001, 80), (0x0A000001, 80), (0x0A000002, 80),
                       (0x0A000001, 80), (0x0A000001, 80), (0x0A000002, 80)]"
    unfolding c upt_12
    by (simp add: target_index_def port_index_def range_list_count_def scan_args_def)
  have "count_list (loop_calls s) (0x0A000001, 22) = 4"
    and "count_list (loop_calls s) (0x0A000003, 22) = 0"
    unfolding l by simp_all
  with r l show ?thesis by blast
qed

section \<open>Properties of the ARP resolver\<close>

text \<open>
  On a chain that \<open>pkt_unpack\<close> may return, an ARP node can only be the second node and
  the last one, so the test of the second node decides whether the chain holds a matching
  reply.
\<close>

lemma htonl_bytes_length: "length (htonl_bytes a) = 4"
  by (simp add: htonl_bytes_def)

lemma well_formed_leaf:
  assumes "well_formed (Pkt h b nx)" and "\<forall>h'. \<not> legal_pair h h'"
  shows "nx = None"
  using assms by (cases nx) auto

lemma no_arp_below_ip4:
  assumes "well_formed (Pkt TYPE_IP4 b nx)"
  shows "concat (map arp_of (nodes (Pkt TYPE_IP4 b nx))) = []"
proof (cases nx)
  case None
  then show ?thesis by simp
next
  case (Some q)
  obtain h' b' nx' where q: "q = Pkt h' b' nx'" by (cases q)
  from assms Some q have lp: "legal_pair TYPE_IP4 h'" and wf: "well_formed (Pkt h' b' nx')"
    by simp_all
  from lp have h': "h' = TYPE_TCP \<or> h' = TYPE_UDP \<or> h' = TYPE_ICMP"
    by (cases h') simp_all
  then have "\<forall>h''. \<not> legal_pair h' h''" by auto
  with wf have "nx' = None" by (rule well_formed_leaf)
  with Some q h' show ?thesis by auto
qed

lemma resolv_frame_contract:
  assumes u: "pkt_unpack frame = (n, c)" and ok: "unpack_contract (n, c)"
  shows "resolv_frame pkt_unpack (htonl_bytes saddr) (htonl_bytes daddr) frame =
    (case matching_reply saddr daddr c of None \<Rightarrow> Continue | Some a \<Rightarrow> Matched (hwsrc a))"
proof (cases c)
  case None
  with ok have "n = 0" by simp
  with None u show ?thesis
    by (simp add: resolv_frame_def matching_reply_def arp_nodes_def)
next
  case (Some hd_pkt)
  obtain h b nx where hd: "hd_pkt = Pkt h b nx" by (cases hd_pkt)
  from ok Some hd obtain e where h: "h = TYPE_ETH e" by (cases h) simp_all
  from ok Some hd have n: "n = int (length (nodes (Pkt h b nx)))"
    and wf: "well_formed (Pkt h b nx)" by simp_all
  show ?thesis
  proof (cases nx)
    case None
    with n have "n = 1" by simp
    with None Some hd h u show ?thesis
      by (simp add: resolv_frame_def matching_reply_def arp_nodes_def)
  next
    case nx: (Some q)
    obtain h' b' nx' where q: "q = Pkt h' b' nx'" by (cases q)
    from n nx q have n2: "\<not> n < 2" by (cases nx') simp_all
    from wf nx q h have lp: "legal_pair (TYPE_ETH e) h'" and wfq: "well_formed (Pkt h' b' nx')"
      by simp_all
    from lp consider (ip4) "h' = TYPE_IP4" | (arp) a where "h' = TYPE_ARP a"
      by (cases h') simp_all
    then show ?thesis
    proof cases
      case ip4
      with wfq have "concat (map arp_of (nodes (Pkt TYPE_IP4 b' nx'))) = []"
        by (simp add: no_arp_below_ip4)
      then have "arp_nodes c = []"
        using Some hd h nx q ip4 by (simp add: arp_nodes_def)
      then show ?thesis
        using u n2 Some hd nx q ip4 by (simp add: resolv_frame_def matching_reply_def)
    next
      case arp
      have "\<forall>h''. \<not> legal_pair (TYPE_ARP a) h''" by simp
      with wfq arp have nx': "nx' = None" using well_formed_leaf by blast
      then have an: "arp_nodes c = [a]"
        using Some hd h nx q arp by (simp add: arp_nodes_def)
      from wfq arp have len: "length (psrc a) = 4" "length (pdst a) = 4" "length (hwsrc a) = 6"
        by (cases nx'; simp)+
      show ?thesis
        using u n2 Some hd nx q arp len an
        by (auto simp: resolv_frame_def matching_reply_def)
    qed
  qed
qed

lemma htonl_bytes_gw: "htonl_bytes 0x0A000001 = [10, 0, 0, 1]"
  by (simp add: htonl_bytes_def)

lemma htonl_bytes_own: "htonl_bytes 0x0A000005 = [10, 0, 0, 5]"
  by (simp add: htonl_bytes_def)

lemma matching_reply_chain:
  "matching_reply 0x0A000005 0x0A000001 (Some reply_chain) = Some reply_arp"
  by (simp add: matching_reply_def arp_nodes_def reply_chain_def reply_arp_def
      htonl_bytes_gw htonl_bytes_own)

lemma unpack_contract_reply: "unpack_contract (2, Some reply_chain)"
  by (simp add: reply_chain_def reply_arp_def)

text \<open>A pass that finds the time limit exceeded returns \<open>-1\<close> whatever was captured.\<close>

lemma resolv_poll_after_limit:
  assumes "now - start > resolv_timeout"
  shows "resolv_poll pkt_unpack saddr daddr start ((rsp, now) # obs) dhost =
    Some (Inr (- 1, dhost))"
  using assms by simp

text \<open>
  C3. In \<open>resolv_addr_to_mac\<close>, a captured frame that the loop unpacks (the time test has
  let the pass through) completes the resolution if and only if its unpacked chain
  contains an ARP node whose \<open>psrc\<close> is the gateway address and whose \<open>pdst\<close> is the local
  address; on such a match, and only then, the six bytes of that node's \<open>hwsrc\<close> are
  copied into \<open>dhost\<close> and the function returns \<open>0\<close>; otherwise the loop goes on polling
  with \<open>dhost\<close> untouched.
\<close>

theorem resolv_poll_frame_in_time:
  assumes "\<not> now - start > resolv_timeout"
    and "pkt_unpack frame = (n, c)" and "unpack_contract (n, c)"
  shows "resolv_poll pkt_unpack (htonl_bytes saddr) (htonl_bytes daddr) start
           ((Some frame, now) # obs) dhost =
         (case matching_reply saddr daddr c of
            Some a \<Rightarrow> Some (Inr (0, hwsrc a @ drop 6 dhost))
          | None \<Rightarrow>
              resolv_poll pkt_unpack (htonl_bytes saddr) (htonl_bytes daddr) start obs dhost)"
  using assms(1) resolv_frame_contract [of pkt_unpack frame n c saddr daddr, OF assms(2,3)]
  by (simp split: option.splits)

theorem resolv_poll_frame_in_time_witness:
  "\<not> (5000000 :: u64) - 0 > resolv_timeout
   \<and> unpack_reply [] = (2, Some reply_chain) \<and> unpack_contract (2, Some reply_chain)
   \<and> resolv_poll unpack_reply (htonl_bytes 0x0A000005) (htonl_bytes 0x0A000001) 0
        [(Some [], 5000000)] [0, 0, 0, 0, 0, 0] = Some (Inr (0, [2, 0, 0, 0, 0, 0xaa]))
   \<and> resolv_poll unpack_reply (htonl_bytes 0x0A000005) (htonl_bytes 0x0A000009) 0
        [(Some [], 5000000)] [0, 0, 0, 0, 0, 0] = None"
proof -
  have h1: "\<not> (5000000 :: u64) - 0 > resolv_timeout" by (simp add: resolv_timeout_def)
  have h2: "unpack_reply [] = (2, Some reply_chain)" by (simp add: unpack_reply_def)
  have m: "matching_reply 0x0A000005 0x0A000009 (Some reply_chain) = None"
    by (simp add: matching_reply_def arp_nodes_def reply_chain_def reply_arp_def
        htonl_bytes_def)
  from resolv_poll_frame_in_time [of 5000000 0 unpack_reply "[]" 2 "Some reply_chain"
      "0x0A000005" "0x0A000001" "[]" "[0, 0, 0, 0, 0, 0]", OF h1 h2 unpack_contract_reply]
    resolv_poll_frame_in_time [of 5000000 0 unpack_reply "[]" 2 "Some reply_chain"
      "0x0A000005" "0x0A000009" "[]" "[0, 0, 0, 0, 0, 0]", OF h1 h2 unpack_contract_reply]
  show ?thesis using h1 h2 unpack_contract_reply
    by (simp add: matching_reply_chain m reply_arp_def)
qed

text \<open>Passes that capture no matching reply within the time limit leave the loop polling.\<close>

lemma resolv_poll_no_reply:
  assumes "list_all (no_reply_in_time pkt_unpack start saddr daddr) pre"
  shows "resolv_poll pkt_unpack (htonl_bytes saddr) (htonl_bytes daddr) start (pre @ obs) dhost =
    resolv_poll pkt_unpack (htonl_bytes saddr) (htonl_bytes daddr) start obs dhost"
  using assms
proof (induction pre)
  case Nil
  then show ?case by simp
next
  case (Cons ob pre)
  obtain rsp now where ob: "ob = (rsp, now)" by (cases ob)
  from Cons.prems have hd: "no_reply_in_time pkt_unpack start saddr daddr ob"
    and rest: "list_all (no_reply_in_time pkt_unpack start saddr daddr) pre"
    by simp_all
  from hd ob have t: "\<not> now - start > resolv_timeout"
    by (simp add: no_reply_in_time_def)
  show ?case
  proof (cases rsp)
    case None
    with ob t rest Cons.IH show ?thesis by simp
  next
    case (Some frame)
    obtain n c where u: "pkt_unpack frame = (n, c)" by (cases "pkt_unpack frame")
    from hd ob Some u have "unpack_contract (n, c)"
      and "matching_reply saddr daddr c = None"
      by (simp_all add: no_reply_in_time_def)
    with resolv_frame_contract [of pkt_unpack frame n c saddr daddr, OF u]
    have "resolv_frame pkt_unpack (htonl_bytes saddr) (htonl_bytes daddr) frame = Continue"
      by simp
    with ob Some t rest Cons.IH show ?thesis by simp
  qed
qed

lemma ntohl_le_gate: "ntohl_le 0x0100000A = 0x0A000001"
  by (simp add: ntohl_le_def)

lemma main_addrs_route: "main_addrs host_env route_opts malloc_args = Inr resolved_args"
  by (simp add: main_addrs_def host_env_def route_opts_def resolved_args_def ntohl_le_gate)

text \<open>
  C7. \<open>resolv_addr_to_mac\<close> injects one frame, the packed request; when no matching reply
  is captured before a pass finds more than 5,000,000 microseconds elapsed, it returns
  \<open>-1\<close> with \<open>dhost\<close> untouched, and \<open>main\<close> ends with a fatal diagnostic.
\<close>

theorem resolv_timeout_aborts_startup:
  assumes "main_addrs M opts args = Inr a"
    and "r_pkt_pack R (ETH_PKTLEN + ARP_PKTLEN)
           (arp_request (local_mac a) (local_addr a) (gateway_addr a)) = (len, buf)"
    and "0 \<le> len"
    and "r_observed R = pre @ (rsp, now) # post"
    and "list_all (no_reply_in_time (r_pkt_unpack R) (r_start R) (local_addr a) (gateway_addr a))
           pre"
    and "now - r_start R > resolv_timeout"
  shows "resolv_addr_to_mac R (local_mac a) (local_addr a) (gateway_mac a) (gateway_addr a) =
           Some (Inr (- 1, gateway_mac a, [take (nat len) buf]))
         \<and> main_startup M R opts args = Some (Inl (Fatal ''Error resolving local MAC''))"
proof -
  have "resolv_poll (r_pkt_unpack R) (htonl_bytes (local_addr a)) (htonl_bytes (gateway_addr a))
      (r_start R) (r_observed R) (gateway_mac a) = Some (Inr (- 1, gateway_mac a))"
    using assms(6) by (simp add: assms(4) resolv_poll_no_reply [OF assms(5)])
  then have r: "resolv_addr_to_mac R (local_mac a) (local_addr a) (gateway_mac a)
      (gateway_addr a) = Some (Inr (- 1, gateway_mac a, [take (nat len) buf]))"
    using assms(2,3) by (simp add: resolv_addr_to_mac_def Let_def)
  then show ?thesis using assms(1) by (simp add: main_startup_def)
qed

theorem resolv_timeout_aborts_startup_witness:
  "main_addrs host_env route_opts malloc_args = Inr resolved_args
   \<and> r_pkt_pack silent_net (ETH_PKTLEN + ARP_PKTLEN)
        (arp_request (local_mac resolved_args) (local_addr resolved_args)
           (gateway_addr resolved_args)) = (42, replicate 42 0)
   \<and> r_observed silent_net = [(None, 1000), (Some [], 2000)] @ (None, 5000001) # []
   \<and> list_all (no_reply_in_time (r_pkt_unpack silent_net) (r_start silent_net)
        (local_addr resolved_args) (gateway_addr resolved_args)) [(None, 1000), (Some [], 2000)]
   \<and> 5000001 - r_start silent_net > resolv_timeout
   \<and> resolv_addr_to_mac silent_net (local_mac resolved_args) (local_addr resolved_args)
        (gateway_mac resolved_args) (gateway_addr resolved_args) =
      Some (Inr (- 1, [0, 0, 0, 0, 0, 0], [replicate 42 0]))
   \<and> main_startup host_env silent_net route_opts malloc_args =
      Some (Inl (Fatal ''Error resolving local MAC''))"
proof -
  have h2: "r_pkt_pack silent_net (ETH_PKTLEN + ARP_PKTLEN)
        (arp_request (local_mac resolved_args) (local_addr resolved_args)
           (gateway_addr resolved_args)) = (42, replicate 42 0)"
    by (simp add: silent_net_def pack_request_def)
  have h3: "(0::int) \<le> 42" by simp
  have h4: "r_observed silent_net = [(None, 1000), (Some [], 2000)] @ (None, 5000001) # []"
    by (simp add: silent_net_def)
  have h5: "list_all (no_reply_in_time (r_pkt_unpack silent_net) (r_start silent_net)
        (local_addr resolved_args) (gateway_addr resolved_args)) [(None, 1000), (Some [], 2000)]"
    by (simp add: no_reply_in_time_def silent_net_def unpack_one_layer_def eth_only_def
        resolv_timeout_def matching_reply_def arp_nodes_def)
  have h6: "5000001 - r_start silent_net > resolv_timeout"
    by (simp add: silent_net_def resolv_timeout_def)
  have g: "gateway_mac resolved_args = [0, 0, 0, 0, 0, 0]"
    by (simp add: resolved_args_def malloc_args_def)
  from resolv_timeout_aborts_startup [OF main_addrs_route h2 h3 h4 h5 h6]
  show ?thesis using main_addrs_route h2 h4 h5 h6 by (simp add: g)
qed

section \<open>Properties of the shutdown\<close>

text \<open>
  A worker loop that reads \<open>done\<close> unset at the tests of a run of passes and set at the
  next test makes exactly these passes and returns.
\<close>

lemma recv_loop_exits_at_done:
  assumes "list_all (\<lambda>ob. \<not> fst ob) pre"
  shows "recv_loop pkt_unpack script_recv (pre @ (True, captured) # post) s =
    Some (foldl (\<lambda>r ob. recv_frame pkt_unpack script_recv (snd ob) r) s pre)"
  using assms by (induction pre arbitrary: s) auto

lemma send_loop_exits_at_done:
  assumes "list_all (\<lambda>ob. \<not> fst ob) pre"
  shows "send_loop pkt_pack len rt (pre @ (True, ob) # post) s =
    send_passes pkt_pack len rt (map snd pre) s"
  using assms by (induction pre arbitrary: s) (auto split: option.splits)

lemma main_run_trace:
  "main_trace (main_run m) = main_trace m @
     [Queue_init, Start_thread recv_thread, Start_thread send_thread, Start_thread loop_thread,
      Setup_signals, Status_line, Pthread_join loop_thread, Set_done,
      Pthread_join recv_thread, Pthread_join send_thread, Netdev_close,
      Range_list_free_targets, Range_list_free_ports, Free_script]"
  by (simp add: main_run_def main_cleanup_def main_shutdown_def main_pipeline_def main_call_def)

text \<open>
  C8. The main thread joins the generator thread, then sets \<open>args->done\<close>, then joins the
  receiver and the transmitter. The receiver and the transmitter test the flag at the
  top of each pass of their loops (the transmitter also at each pass of its inner loop)
  and leave the loop at the first test that reads it set.
\<close>

theorem shutdown_order_and_loop_exit:
  "main_trace (main_shutdown m) = main_trace m @
     [Pthread_join loop_thread, Set_done, Pthread_join recv_thread, Pthread_join send_thread]
   \<and> args_done (main_shutdown m)
   \<and> (list_all (\<lambda>ob. \<not> fst ob) rpre \<longrightarrow>
        recv_loop pkt_unpack script_recv (rpre @ (True, captured) # rpost) r =
          Some (foldl (\<lambda>r ob. recv_frame pkt_unpack script_recv (snd ob) r) r rpre))
   \<and> (list_all (\<lambda>ob. \<not> fst ob) spre \<longrightarrow>
        send_loop pkt_pack len rt (spre @ (True, ob) # spost) s =
          send_passes pkt_pack len rt (map snd spre) s)
   \<and> send_burst pkt_pack len rt ((True, node) # obs) s = Some s"
  by (simp add: recv_loop_exits_at_done send_loop_exits_at_done main_shutdown_def main_call_def)

theorem shutdown_order_and_loop_exit_witness:
  "main_trace (main_shutdown main_state0) =
     [Pthread_join loop_thread, Set_done, Pthread_join recv_thread, Pthread_join send_thread]
   \<and> args_done (main_shutdown main_state0)
   \<and> list_all (\<lambda>ob. \<not> fst ob) recv_observed
   \<and> recv_loop unpack_one_layer script_accepts (recv_observed @ (True, None) # []) recv_state0 =
       Some \<lparr>pkt_recv = 1, recv_upcalls = [Some eth_only], recv_freed = [Some eth_only],
             released = 1\<rparr>
   \<and> list_all (\<lambda>ob. \<not> fst ob) send_observed
   \<and> send_loop pack_two_bytes 64 100 (send_observed @ (True, refill_one, []) # []) send_state0 =
       Some \<lparr>pkt_sent = 1, pkt_probe = 1, send_tokens = 3, injected = [[0xde, 0xad]],
             send_freed = [probe_pkt]\<rparr>"
proof -
  have r: "list_all (\<lambda>ob. \<not> fst ob) recv_observed" by (simp add: recv_observed_def)
  have t: "list_all (\<lambda>ob. \<not> fst ob) send_observed" by (simp add: send_observed_def)
  from shutdown_order_and_loop_exit [of main_state0 recv_observed unpack_one_layer
      script_accepts None "[]" recv_state0 send_observed pack_two_bytes 64 100
      "(refill_one, [])" "[]" send_state0 None "[]"]
  show ?thesis using r t
    by (simp add: main_state0_def recv_observed_def send_observed_def recv_frame_def
        unpack_one_layer_def script_accepts_def recv_state0_def send_pass_def send_pkt_def
        pack_two_bytes_def probe_pkt_def send_state0_def refill_one_def double_dec_4)
qed

section \<open>Properties of start-up\<close>

text \<open>
  With \<open>--gateway-addr\<close> given, the gateway address handed to the resolver is whatever the
  allocated record held, and the local address is the one of \<open>--local-addr\<close> or of the
  interface.
\<close>

lemma main_addrs_gateway_option:
  assumes "opt_gateway_addr opts = Some g" and "main_addrs M opts args = Inr a"
  shows "gateway_addr a = gateway_addr args"
    and "local_addr a = (case opt_local_addr opts of Some l \<Rightarrow> l | None \<Rightarrow> ifip M)"
  using assms by (auto simp: main_addrs_def Let_def split: if_splits option.splits)

text \<open>
  C2 on \<open>--gateway-addr 192.168.1.1\<close>: the option's value is not the gateway address that
  reaches the resolver (here \<open>0\<close>, the content of the allocated memory); the local
  address is the interface's.
\<close>

theorem main_gateway_option_lost:
  "main_addrs host_env gateway_opts malloc_args =
     Inr (malloc_args\<lparr>local_mac := [2, 0, 0, 0, 0, 1], local_addr := 0x0A000005\<rparr>)
   \<and> gateway_addr (malloc_args\<lparr>local_mac := [2, 0, 0, 0, 0, 1], local_addr := 0x0A000005\<rparr>) = 0
   \<and> opt_gateway_addr gateway_opts = Some 0xC0A80101"
  by (simp add: main_addrs_def host_env_def gateway_opts_def malloc_args_def)

section \<open>Properties of the integer serialisation\<close>

text \<open>
  The byte that \<open>packint\<close> stores for position \<open>j\<close> (counted from the least significant
  end) is byte \<open>j\<close> of the number, whatever the room held before.
\<close>

lemma ucast_and_MC: "(ucast (x AND ucast MC :: u64) :: u8) = ucast x"
proof -
  have "(ucast MC :: u64) = mask 8" by (simp add: MC_def mask_eq_exp_minus_1)
  then show ?thesis
    by (intro bit_word_eqI) (simp add: bit_simps)
qed

lemma buff_index_less: "i < sz \<Longrightarrow> buff_index e sz i < sz"
  by (simp add: buff_index_def)

lemma buff_index_inj: "i < sz \<Longrightarrow> j < sz \<Longrightarrow> buff_index e sz i = buff_index e sz j \<longleftrightarrow> i = j"
  by (auto simp: buff_index_def)

lemma packint_bytes_length: "length (packint_bytes e sz i n buff) = length buff"
  by (induction e sz i n buff rule: packint_bytes.induct)
     (subst packint_bytes.simps, simp add: Let_def)

lemma packint_bytes_nth:
  assumes "sz \<le> length buff" and "j < sz"
  shows "packint_bytes e sz i n buff ! buff_index e sz j =
    (if i \<le> j then ucast (drop_bit (NB * (j - i + 1)) n) else buff ! buff_index e sz j)"
  using assms
proof (induction e sz i n buff rule: packint_bytes.induct)
  case (1 e sz i n buff)
  show ?case
  proof (cases "i < sz")
    case False
    with "1.prems" show ?thesis by (subst packint_bytes.simps) simp
  next
    case True
    let ?n' = "drop_bit NB n"
    let ?buff' = "buff[buff_index e sz i := ucast (?n' AND ucast MC)]"
    have step: "packint_bytes e sz i n buff = packint_bytes e sz (i + 1) ?n' ?buff'"
      using True by (subst packint_bytes.simps) (simp add: Let_def)
    have "sz \<le> length ?buff'" using "1.prems" by simp
    from "1.IH" [OF True refl this "1.prems"(2)]
    have IH: "packint_bytes e sz (i + 1) ?n' ?buff' ! buff_index e sz j =
      (if i + 1 \<le> j then ucast (drop_bit (NB * (j - (i + 1) + 1)) ?n')
       else ?buff' ! buff_index e sz j)" .
    show ?thesis
    proof (cases "i + 1 \<le> j")
      case le: True
      then have "j - (i + 1) + 1 = j - i" by simp
      then have "NB * (j - (i + 1) + 1) + NB = NB * (j - i + 1)" by simp
      then have "drop_bit (NB * (j - (i + 1) + 1)) (drop_bit NB n) = drop_bit (NB * (j - i + 1)) n"
        by (simp only: drop_bit_drop_bit add.commute)
      with le show ?thesis
        unfolding step IH by simp
    next
      case nle: False
      show ?thesis
      proof (cases "i = j")
        case True
        have "buff_index e sz j < length buff"
          using "1.prems" buff_index_less [of j sz e] by simp
        with True nle show ?thesis
          unfolding step IH by (simp add: ucast_and_MC)
      next
        case False
        with nle have "j < i" by simp
        moreover have "buff_index e sz i \<noteq> buff_index e sz j"
          using False True "1.prems"(2) by (simp add: buff_index_inj)
        ultimately show ?thesis unfolding step IH by simp
      qed
    qed
  qed
qed

lemma packint_nth:
  assumes "1 \<le> sz" and "length area = sz" and "j < sz" and "\<not> (neg \<and> sz > SZINT)"
  shows "packint area n e sz neg ! buff_index e sz j = ucast (drop_bit (NB * j) n)"
proof -
  let ?buff = "area[buff_index e sz 0 := ucast (n AND ucast MC)]"
  have p: "packint area n e sz neg = packint_bytes e sz 1 n ?buff"
    using assms(4) by (auto simp: packint_def Let_def)
  have len: "sz \<le> length ?buff" using assms(2) by simp
  show ?thesis
  proof (cases "1 \<le> j")
    case True
    then show ?thesis
      unfolding p packint_bytes_nth [OF len assms(3)] by simp
  next
    case False
    then have j: "j = 0" by simp
    have "buff_index e sz 0 < length area"
      using assms(1,2) buff_index_less [of 0 sz e] by simp
    then show ?thesis
      unfolding p packint_bytes_nth [OF len assms(3)] using j by (simp add: ucast_and_MC)
  qed
qed

lemma packint_length:
  assumes "\<not> (neg \<and> sz > SZINT)"
  shows "length (packint area n e sz neg) = length area"
  using assms by (auto simp: packint_def Let_def packint_bytes_length)

text \<open>The first loop of \<open>unpackint\<close> puts \<open>k\<close> such bytes back together.\<close>

lemma unpackint_bytes_assemble:
  assumes "\<forall>i<k. str ! buff_index e sz i = ucast (drop_bit (NB * i) n)"
  shows "unpackint_bytes e sz str k res = push_bit (NB * k) res OR take_bit (NB * k) n"
  using assms
proof (induction k arbitrary: res)
  case 0
  then show ?case by simp
next
  case (Suc k)
  have byte: "str ! buff_index e sz k = ucast (drop_bit (NB * k) n)"
    using Suc.prems by simp
  have "unpackint_bytes e sz str (Suc k) res =
      push_bit (NB * k) (push_bit NB res OR ucast (ucast (drop_bit (NB * k) n) :: u8))
        OR take_bit (NB * k) n"
    using Suc.IH Suc.prems by (simp add: byte)
  also have "\<dots> = push_bit (NB * Suc k) res OR take_bit (NB * Suc k) n"
    by (rule bit_word_eqI) (auto simp: bit_simps NB_def ac_simps)
  finally show ?case .
qed

text \<open>The sign extension \<open>(res ^ mask) - mask\<close> and the two ranges of representable numbers.\<close>

lemma xor_exp_minus_exp:
  fixes w :: u64
  shows "(take_bit (Suc m) w XOR push_bit m 1) - push_bit m 1 = signed_take_bit m w"
proof -
  let ?x = "take_bit (Suc m) w"
  have b: "bit ?x m \<longleftrightarrow> bit w m" by (simp add: bit_take_bit_iff)
  have "?x XOR push_bit m 1 = flip_bit m ?x" by (simp add: flip_bit_eq_xor)
  also have "\<dots> = ?x + 2 ^ m - 2 ^ Suc m * of_bool (bit w m)"
    by (cases "bit w m") (simp_all add: flip_bit_eq_if set_bit_eq unset_bit_eq b)
  finally show ?thesis
    by (simp add: signed_take_bit_eq_take_bit_minus push_bit_eq_mult)
qed

lemma signed_take_bit_in_range:
  fixes n :: u64
  assumes "- (2 ^ m) \<le> sint n" and "sint n < 2 ^ m"
  shows "signed_take_bit m n = n"
proof -
  have "signed_take_bit m n = signed_take_bit m (word_of_int (sint n) :: u64)" by simp
  also have "\<dots> = word_of_int (signed_take_bit m (sint n))"
    by (simp only: signed_take_bit_of_int)
  also have "signed_take_bit m (sint n) = sint n"
    using assms by (rule signed_take_bit_int_eq_self)
  finally show ?thesis by simp
qed

lemma take_bit_in_range:
  fixes n :: u64
  assumes "uint n < 2 ^ k"
  shows "take_bit k n = n"
  by (metis assms take_bit_int_eq_self_iff unsigned_greater_eq
    unsigned_take_bit_eq word_of_int_uint)

text \<open>
  C10. For either byte order, a size \<open>sz\<close> from 1 to \<open>SZINT\<close> and a number \<open>n\<close> that \<open>sz\<close>
  bytes can hold (between \<open>-2 ^ (8 * sz - 1)\<close> and \<open>2 ^ (8 * sz - 1) - 1\<close> when read as
  signed, below \<open>2 ^ (8 * sz)\<close> when read as unsigned), \<open>unpackint\<close> with the same byte
  order, size and signedness on the bytes that \<open>packint\<close> produced for \<open>n\<close> returns \<open>n\<close>.
\<close>

theorem packint_unpackint_roundtrip:
  assumes "1 \<le> sz" and "sz \<le> SZINT" and "length area = sz"
    and "if issigned then - (2 ^ (NB * sz - 1)) \<le> sint n \<and> sint n < 2 ^ (NB * sz - 1)
         else uint n < 2 ^ (NB * sz)"
  shows "unpackint (packint area n islittle sz neg) islittle sz issigned = Inr n"
proof -
  let ?str = "packint area n islittle sz neg"
  have noext: "\<not> (neg \<and> sz > SZINT)" using assms(2) by simp
  have len: "length ?str = sz" using assms(3) by (simp add: packint_length [OF noext])
  have bytes: "\<forall>i. i < sz \<longrightarrow> ?str ! buff_index islittle sz i = ucast (drop_bit (NB * i) n)"
    using packint_nth [OF assms(1,3) _ noext] by simp
  have res: "unpackint_bytes islittle sz ?str sz 0 = take_bit (NB * sz) n"
    by (simp add: unpackint_bytes_assemble [OF bytes])
  show ?thesis
  proof (cases "sz < SZINT")
    case small: True
    show ?thesis
    proof (cases issigned)
      case True
      obtain m where m: "NB * sz = Suc m"
        using assms(1) by (cases "NB * sz") (simp_all add: NB_def)
      with assms(4) True have "- (2 ^ m) \<le> sint n" and "sint n < 2 ^ m" by simp_all
      then have "signed_take_bit m n = n" by (rule signed_take_bit_in_range)
      then have "(take_bit (Suc m) n XOR push_bit m 1) - push_bit m 1 = n"
        by (simp only: xor_exp_minus_exp)
      moreover have "sz * NB - 1 = m" using m by (simp add: mult.commute)
      ultimately show ?thesis
        using small True assms(2) len res m by (simp add: unpackint_def Let_def)
    next
      case False
      with assms(4) have "take_bit (NB * sz) n = n" by (simp add: take_bit_in_range)
      with small False assms(2) len res show ?thesis by (simp add: unpackint_def Let_def)
    qed
  next
    case False
    with assms(2) have sz: "sz = SZINT" by simp
    have "take_bit (NB * SZINT) n = n"
      using take_bit_length_eq [of n] by (simp add: NB_def SZINT_def)
    with sz len res show ?thesis by (simp add: unpackint_def Let_def)
  qed
qed

theorem packint_unpackint_roundtrip_witness:
  "(1::nat) \<le> 2 \<and> 2 \<le> SZINT \<and> length [0x55, 0x55 :: u8] = 2
   \<and> - (2 ^ (NB * 2 - 1)) \<le> sint (- 2 :: u64) \<and> sint (- 2 :: u64) < 2 ^ (NB * 2 - 1)
   \<and> uint (0xfffe :: u64) < 2 ^ (NB * 2)
   \<and> unpackint (packint [0x55, 0x55] (- 2) False 2 True) False 2 True = Inr (- 2)
   \<and> unpackint (packint [0x55, 0x55] 0xfffe True 2 False) True 2 False = Inr 0xfffe"
proof -
  have h1: "(1::nat) \<le> 2" by simp
  have h2: "2 \<le> SZINT" by (simp add: SZINT_def)
  have h3: "length [0x55, 0x55 :: u8] = 2" by simp
  have h4: "- (2 ^ (NB * 2 - 1)) \<le> sint (- 2 :: u64) \<and> sint (- 2 :: u64) < 2 ^ (NB * 2 - 1)"
    by (simp add: NB_def)
  have h5: "uint (0xfffe :: u64) < 2 ^ (NB * 2)" by (simp add: NB_def)
  have s: "if True then - (2 ^ (NB * 2 - 1)) \<le> sint (- 2 :: u64) \<and> sint (- 2 :: u64) < 2 ^ (NB * 2 - 1)
         else uint (- 2 :: u64) < 2 ^ (NB * 2)"
    using h4 by simp
  have u: "if False then - (2 ^ (NB * 2 - 1)) \<le> sint (0xfffe :: u64)
           \<and> sint (0xfffe :: u64) < 2 ^ (NB * 2 - 1)
         else uint (0xfffe :: u64) < 2 ^ (NB * 2)"
    using h5 by simp
  from packint_unpackint_roundtrip [OF h1 h2 h3 s, of False True]
    packint_unpackint_roundtrip [OF h1 h2 h3 u, of True False]
  show ?thesis using h1 h2 h3 h4 h5 by simp
qed

end
